theory Spec2Isabelle
  imports Complex_Main "HOL-Library.Signed_Division"
begin

section \<open>Data model\<close>

text \<open>
  The two source files are the trial driver \<^verbatim>\<open>FindTour\<close> and the run driver
  \<^verbatim>\<open>main\<close>. Both work on the global variables of the solver and on the
  circular list of nodes, and both call procedures that are defined elsewhere.

  \<^item> \<^verbatim>\<open>GainType\<close> is \<^verbatim>\<open>long long\<close>; it is modelled as \<open>int\<close> (signed overflow is
    undefined in C and plays no part below). \<^verbatim>\<open>double\<close> values are idealised
    as \<open>real\<close>.
  \<^item> A \<^verbatim>\<open>Node *\<close> is the index of the node in \<^verbatim>\<open>NodeSet\<close>; the null pointer is
    \<open>0\<close> (\<^verbatim>\<open>NodeSet[0]\<close> is never used as a node). Each pointer field of the
    node struct is a function from node to node.
  \<^item> Everything the absent procedures keep to themselves (hash table, tour
    arrays, population, random generator, clock, files) lives in the field
    \<open>world\<close>.
\<close>

type_synonym GainType = int
type_synonym node = nat

datatype error = NullDeref | DivByZero | DivOverflow

datatype problem_type = TSP | ATSP | HCP | HPP | OtherType

record 'w state =
  FirstNode :: node
  Suc_n :: "node \<Rightarrow> node"
  Pred_n :: "node \<Rightarrow> node"
  BestSuc :: "node \<Rightarrow> node"
  NextBestSuc :: "node \<Rightarrow> node"
  OldPred :: "node \<Rightarrow> node"
  OldSuc :: "node \<Rightarrow> node"
  Next_n :: "node \<Rightarrow> node"
  InputSuc :: "node \<Rightarrow> node"
  InitialSuc :: "node \<Rightarrow> node"
  Pi_n :: "node \<Rightarrow> int"
  CandidateSet :: "node \<Rightarrow> nat"
  BackboneCandidateSet :: "node \<Rightarrow> nat"
  Run :: int
  Runs :: int
  Trial :: int
  MaxTrials :: int
  Dimension :: int
  DimensionSaved :: int
  Precision :: int
  Norm :: int
  LowerBound :: real
  BetterCost :: GainType
  BestCost :: GainType
  Optimum :: GainType
  OrdinalTourCost :: GainType
  TimeLimit :: real
  TraceLevel :: int
  StopAtOptimum :: int
  BackboneTrials :: int
  Hash :: int
  Seed :: int
  SubproblemSize :: int
  DelaunayPartitioning :: int
  KarpPartitioning :: int
  KCenterPartitioning :: int
  KMeansPartitioning :: int
  RohePartitioning :: int
  MoorePartitioning :: int
  SierpinskiPartitioning :: int
  MaxPopulationSize :: int
  PopulationSize :: int
  Fitness :: "int \<Rightarrow> GainType"
  ProblemType :: problem_type
  MaxMatrixDimension :: int
  ParameterFileName :: "string option"
  world :: 'w

subsection \<open>Calls to procedures defined outside the two files\<close>

datatype tour_file = OutputTourFileName | TourFileName

datatype tour_array = BetterTour | BestTour

datatype msg =
    TimeLimitExceeded | ImprovedCost | Gap | TimeAndMark | TrialCost
  | BackboneCandidates | SwapNotice | MergedWith | Newline | NewOptimum | RunCost

datatype call =
    GetTime | Random | SRandom int
  | HashInitialize | HashInsert int GainType
  | ChooseInitialTour | LinKernighan | MergeWithTour
  | RecordBetterTour | RecordBestTour
  | WriteTour tour_file tour_array GainType
  | AdjustCandidateSet | ResetCandidateSet | CandidateReport
  | Free nat | Printff msg
  | ReadParameters | ReadProblem
  | SolveDelaunaySubproblems | SolveKarpSubproblems | SolveKCenterSubproblems
  | SolveKMeansSubproblems | SolveRoheSubproblems | SolveSFCSubproblems
  | SolveTourSegmentSubproblems
  | AllocateStructures | CreateCandidateSet | InitializeStatistics
  | UpdateStatistics GainType real | PrintStatistics
  | MergeTourWithIndividual int | MergeTourWithBestTour
  | HasFitness GainType | AddToPopulation GainType | PrintPopulation
  | ReplacementIndividual GainType | ReplaceIndividualWithTour int GainType
  | LinearSelection int real | ApplyCrossover int int
  | AddCandidate node node int int
  | Enter_FindTour

text \<open>
  The absent procedures are parameters of the model. \<open>proc\<close> gives the effect
  of a \<^verbatim>\<open>void\<close> procedure on the globals, \<open>func\<close> the value and the effect
  of an integer-valued one, \<open>clock\<close> is \<^verbatim>\<open>GetTime\<close> and \<open>C\<close> is the cost macro.
  The two infinities are the macros of the absent header.
\<close>

record 'w env =
  PLUS_INFINITY :: GainType
  MINUS_INFINITY :: GainType
  INT_MAX :: int
  proc :: "call \<Rightarrow> 'w state \<Rightarrow> 'w state"
  func :: "call \<Rightarrow> 'w state \<Rightarrow> int \<times> 'w state"
  clock :: "'w state \<Rightarrow> real \<times> 'w state"
  C :: "'w state \<Rightarrow> node \<Rightarrow> node \<Rightarrow> int"

text \<open>
  A configuration is the globals together with the log of the calls made so
  far, oldest first. Printing changes the log only.
\<close>

type_synonym 'w config = "'w state \<times> call list"

definition call_proc :: "'w env \<Rightarrow> call \<Rightarrow> 'w config \<Rightarrow> 'w config" where
  "call_proc e c cfg = (proc e c (fst cfg), snd cfg @ [c])"

definition call_func :: "'w env \<Rightarrow> call \<Rightarrow> 'w config \<Rightarrow> int \<times> 'w config" where
  "call_func e c cfg = (fst (func e c (fst cfg)), (snd (func e c (fst cfg)), snd cfg @ [c]))"

definition call_GetTime :: "'w env \<Rightarrow> 'w config \<Rightarrow> real \<times> 'w config" where
  "call_GetTime e cfg = (fst (clock e (fst cfg)), (snd (clock e (fst cfg)), snd cfg @ [GetTime]))"

definition printff :: "msg \<Rightarrow> 'w config \<Rightarrow> 'w config" where
  "printff m cfg = (fst cfg, snd cfg @ [Printff m])"

definition upd :: "('w state \<Rightarrow> 'w state) \<Rightarrow> 'w config \<Rightarrow> 'w config" where
  "upd f cfg = (f (fst cfg), snd cfg)"

subsection \<open>Walking a ring of nodes\<close>

text \<open>
  Every loop over the nodes has the shape
  \<^verbatim>\<open>do body(t); while ((t = next(t)) != FirstNode);\<close>
  where \<^verbatim>\<open>FirstNode\<close> is the global, read again at every test.
  The walk dereferences \<open>t\<close>, so a null \<open>t\<close> is an error; a ring that never
  comes back to the first node makes the loop run forever (\<open>None\<close>).
\<close>

partial_function (option) ring_do ::
  "('s \<Rightarrow> node \<Rightarrow> error + 's) \<Rightarrow> ('s \<Rightarrow> node \<Rightarrow> node) \<Rightarrow> ('s \<Rightarrow> node) \<Rightarrow> 's \<Rightarrow> node \<Rightarrow> (error + 's) option"
where
  "ring_do body nxt first s t =
     (if t = 0 then Some (Inl NullDeref)
      else case body s t of
             Inl err \<Rightarrow> Some (Inl err)
           | Inr s' \<Rightarrow> if nxt s' t \<noteq> first s' then ring_do body nxt first s' (nxt s' t)
                       else Some (Inr s'))"

text \<open>
  Results: \<open>None\<close> is a loop that never ends, \<open>Some (Inl err)\<close> a crash,
  \<open>Some (Inr x)\<close> a normal result.
\<close>

definition bind_res :: "(error + 'a) option \<Rightarrow> ('a \<Rightarrow> (error + 'b) option) \<Rightarrow> (error + 'b) option" where
  "bind_res m f = (case m of None \<Rightarrow> None | Some (Inl err) \<Rightarrow> Some (Inl err) | Some (Inr x) \<Rightarrow> f x)"

definition ok :: "'a \<Rightarrow> (error + 'a) option" where
  "ok x = Some (Inr x)"

definition crash :: "error \<Rightarrow> (error + 'a) option" where
  "crash err = Some (Inl err)"

section \<open>The trial driver \<^verbatim>\<open>FindTour\<close>\<close>

subsection \<open>Entry\<close>

text \<open>\<^verbatim>\<open>t->OldPred = t->OldSuc = t->NextBestSuc = t->BestSuc = 0\<close>\<close>

definition clear_links :: "'w state \<Rightarrow> node \<Rightarrow> error + 'w state" where
  "clear_links s t =
     Inr (s\<lparr>BestSuc := (BestSuc s)(t := 0), NextBestSuc := (NextBestSuc s)(t := 0),
            OldSuc := (OldSuc s)(t := 0), OldPred := (OldPred s)(t := 0)\<rparr>)"

text \<open>
  Arithmetic in a signed integer of \<open>w\<close> bits keeps the value that differs
  from the exact one by a multiple of \<open>2 ^ w\<close> and lies in the range of the type
  (two's complement): \<^verbatim>\<open>int\<close> has 32 bits, \<^verbatim>\<open>GainType\<close> (\<^verbatim>\<open>long long\<close>) has 64.
\<close>

definition wrap :: "nat \<Rightarrow> int \<Rightarrow> int" where
  "wrap w x = (x + 2 ^ (w - 1)) mod 2 ^ w - 2 ^ (w - 1)"

text \<open>
  The cost of the tour 1, 2, ..., Dimension, 1 in the transformed costs,
  divided by \<^verbatim>\<open>Precision\<close> (C division truncates towards zero). Each term
  \<^verbatim>\<open>C(a, b) - a->Pi - b->Pi\<close> is computed in \<^verbatim>\<open>int\<close> and added to the
  \<^verbatim>\<open>GainType\<close> accumulator. The division traps when \<^verbatim>\<open>Precision\<close> is 0, and
  when the least \<^verbatim>\<open>GainType\<close> is divided by -1.
\<close>

definition ordinal_term :: "'w env \<Rightarrow> 'w state \<Rightarrow> node \<Rightarrow> node \<Rightarrow> int" where
  "ordinal_term e s a b = wrap 32 (wrap 32 (C e s a b - Pi_n s a) - Pi_n s b)"

definition ordinal_sum :: "'w env \<Rightarrow> 'w state \<Rightarrow> GainType" where
  "ordinal_sum e s =
     wrap 64 (fold (\<lambda>i acc. wrap 64 (acc + ordinal_term e s (nat i) (nat (i + 1))))
                   [1 .. Dimension s - 1] 0
              + ordinal_term e s (nat (Dimension s)) 1)"

definition init_OrdinalTourCost :: "'w env \<Rightarrow> 'w state \<Rightarrow> (error + 'w state) option" where
  "init_OrdinalTourCost e s =
     (if Run s = 1 \<and> Dimension s = DimensionSaved s then
        (if Precision s = 0 then crash DivByZero
         else if ordinal_sum e s = - (2 ^ 63) \<and> Precision s = - 1 then crash DivOverflow
         else ok (s\<lparr>OrdinalTourCost := ordinal_sum e s sdiv Precision s\<rparr>))
      else ok s)"

definition FindTour_entry :: "'w env \<Rightarrow> 'w config \<Rightarrow> (error + real \<times> 'w config) option" where
  "FindTour_entry e cfg0 =
     (let EntryTime = fst (call_GetTime e cfg0);
          cfg1 = snd (call_GetTime e cfg0)
      in bind_res (ring_do clear_links Suc_n FirstNode (fst cfg1) (FirstNode (fst cfg1)))
           (\<lambda>s2. bind_res (init_OrdinalTourCost e s2)
           (\<lambda>s3. let s4 = s3\<lparr>BetterCost := PLUS_INFINITY e\<rparr> in
                 if MaxTrials s4 > 0 then ok (EntryTime, call_proc e HashInitialize (s4, snd cfg1))
                 else ok (EntryTime, call_proc e ChooseInitialTour (s4\<lparr>Trial := 1\<rparr>, snd cfg1)))))"

subsection \<open>One trial\<close>

text \<open>The time check at the top of the trial: the flag says whether the loop is left.\<close>

definition time_check :: "'w env \<Rightarrow> real \<Rightarrow> 'w config \<Rightarrow> bool \<times> 'w config" where
  "time_check e EntryTime cfg =
     (let now = fst (call_GetTime e cfg); cfg1 = snd (call_GetTime e cfg) in
      if now - EntryTime \<ge> TimeLimit (fst cfg1) then
        (True, if TraceLevel (fst cfg1) \<ge> 1 then printff TimeLimitExceeded cfg1 else cfg1)
      else (False, cfg1))"

text \<open>\<^verbatim>\<open>for (i = ...; i > 0; i--) FirstNode = FirstNode->Suc;\<close>\<close>

fun advance_FirstNode :: "nat \<Rightarrow> 'w state \<Rightarrow> error + 'w state" where
  "advance_FirstNode 0 s = Inr s"
| "advance_FirstNode (Suc i) s =
     (if FirstNode s = 0 then Inl NullDeref
      else advance_FirstNode i (s\<lparr>FirstNode := Suc_n s (FirstNode s)\<rparr>))"

definition choose_FirstNode :: "'w env \<Rightarrow> 'w config \<Rightarrow> (error + 'w config) option" where
  "choose_FirstNode e cfg =
     (let r = fst (call_func e Random cfg); cfg1 = snd (call_func e Random cfg);
          d = Dimension (fst cfg1)
      in if Dimension (fst cfg) = DimensionSaved (fst cfg) then
           (if d = 0 then crash DivByZero
            else ok (upd (\<lambda>s. s\<lparr>FirstNode := nat (1 + r smod d)\<rparr>) cfg1))
         else
           (if d = 0 then crash DivByZero
            else case advance_FirstNode (nat (r smod d)) (fst cfg1) of
                   Inl err \<Rightarrow> crash err
                 | Inr s' \<Rightarrow> ok (s', snd cfg1)))"

text \<open>\<^verbatim>\<open>while ((t = t->Next = t->BestSuc) != FirstNode);\<close>\<close>

definition best_to_Next :: "'w state \<Rightarrow> node \<Rightarrow> error + 'w state" where
  "best_to_Next s t = Inr (s\<lparr>Next_n := (Next_n s)(t := BestSuc s t)\<rparr>)"

definition merge_with_best :: "'w env \<Rightarrow> GainType \<Rightarrow> 'w config \<Rightarrow> (error + GainType \<times> 'w config) option" where
  "merge_with_best e Cost cfg =
     (let s = fst cfg in
      if FirstNode s = 0 then crash NullDeref
      else if BestSuc s (FirstNode s) \<noteq> 0 then
        bind_res (ring_do best_to_Next Next_n FirstNode s (FirstNode s))
          (\<lambda>s'. ok (call_func e MergeWithTour (s', snd cfg)))
      else ok (Cost, cfg))"

text \<open>
  \<^verbatim>\<open>for (i = 1; i < Dimension; i++) NodeSet[i].Next = &NodeSet[i + 1];\<close>
  \<^verbatim>\<open>NodeSet[Dimension].Next = &NodeSet[1];\<close>
\<close>

definition ordinal_Next :: "'w state \<Rightarrow> 'w state" where
  "ordinal_Next s =
     (let nx = fold (\<lambda>i f. f(nat i := nat (i + 1))) [1 .. Dimension s - 1] (Next_n s)
      in s\<lparr>Next_n := nx(nat (Dimension s) := 1)\<rparr>)"

definition merge_with_ordinal :: "'w env \<Rightarrow> GainType \<Rightarrow> 'w config \<Rightarrow> GainType \<times> 'w config" where
  "merge_with_ordinal e Cost cfg =
     (let s = fst cfg in
      if Dimension s = DimensionSaved s \<and> Cost \<ge> OrdinalTourCost s \<and> BetterCost s > OrdinalTourCost s
      then call_func e MergeWithTour (upd ordinal_Next cfg)
      else (Cost, cfg))"

text \<open>Lines 72 to 96: the search of one trial, up to the decision about its cost.\<close>

definition trial_search :: "'w env \<Rightarrow> 'w config \<Rightarrow> (error + GainType \<times> 'w config) option" where
  "trial_search e cfg =
     bind_res (choose_FirstNode e cfg)
       (\<lambda>cfg1. let cfg2 = call_proc e ChooseInitialTour cfg1;
                   Cost = fst (call_func e LinKernighan cfg2);
                   cfg3 = snd (call_func e LinKernighan cfg2)
               in bind_res (merge_with_best e Cost cfg3)
                    (\<lambda>(Cost', cfg4). ok (merge_with_ordinal e Cost' cfg4)))"


text \<open>
  Lines 97 to 121: the block run for a trial whose cost beats \<^verbatim>\<open>BetterCost\<close>, and
  the trace line of the other trials. The flag is the \<^verbatim>\<open>break\<close>.
\<close>

definition print_improvement :: "'w env \<Rightarrow> GainType \<Rightarrow> 'w config \<Rightarrow> 'w config" where
  "print_improvement e Cost cfg =
     (if TraceLevel (fst cfg) \<ge> 1 then
        (let cfg1 = printff ImprovedCost cfg;
             cfg2 = (if Optimum (fst cfg1) \<noteq> MINUS_INFINITY e \<and> Optimum (fst cfg1) \<noteq> 0
                     then printff Gap cfg1 else cfg1)
         in printff TimeAndMark (snd (call_GetTime e cfg2)))
      else cfg)"

definition record_improvement :: "'w env \<Rightarrow> GainType \<Rightarrow> 'w config \<Rightarrow> bool \<times> 'w config" where
  "record_improvement e Cost cfg =
     (let cfg1 = print_improvement e Cost cfg;
          cfg2 = upd (\<lambda>s. s\<lparr>BetterCost := Cost\<rparr>) cfg1;
          cfg3 = call_proc e RecordBetterTour cfg2;
          cfg4 = (if Dimension (fst cfg3) = DimensionSaved (fst cfg3) \<and> BetterCost (fst cfg3) < BestCost (fst cfg3)
                  then call_proc e (WriteTour OutputTourFileName BetterTour (BetterCost (fst cfg3))) cfg3
                  else cfg3)
      in if StopAtOptimum (fst cfg4) \<noteq> 0 \<and> BetterCost (fst cfg4) = Optimum (fst cfg4) then (True, cfg4)
         else
           (let cfg5 = call_proc e AdjustCandidateSet cfg4;
                cfg6 = call_proc e HashInitialize cfg5
            in (False, call_proc e (HashInsert (Hash (fst cfg6)) Cost) cfg6)))"

definition improve_stage :: "'w env \<Rightarrow> GainType \<Rightarrow> 'w config \<Rightarrow> bool \<times> 'w config" where
  "improve_stage e Cost cfg =
     (if Cost < BetterCost (fst cfg) then record_improvement e Cost cfg
      else if TraceLevel (fst cfg) \<ge> 2 then (False, printff TrialCost (snd (call_GetTime e cfg)))
      else (False, cfg))"

subsection \<open>Backbone candidates\<close>

definition swap_sets :: "'w config \<Rightarrow> node \<Rightarrow> error + 'w config" where
  "swap_sets cfg t =
     Inr (upd (\<lambda>s. s\<lparr>CandidateSet := (CandidateSet s)(t := BackboneCandidateSet s t),
                       BackboneCandidateSet := (BackboneCandidateSet s)(t := CandidateSet s t)\<rparr>) cfg)"

definition SwapCandidateSets :: "'w config \<Rightarrow> (error + 'w config) option" where
  "SwapCandidateSets cfg =
     (let cfg1 = printff SwapNotice cfg in
      ring_do swap_sets (\<lambda>c. Suc_n (fst c)) (\<lambda>c. FirstNode (fst c)) cfg1 (FirstNode (fst cfg1)))"

text \<open>Lines 124 to 134.\<close>

definition backbone_stage :: "'w env \<Rightarrow> 'w config \<Rightarrow> (error + 'w config) option" where
  "backbone_stage e cfg =
     (if Trial (fst cfg) \<le> BackboneTrials (fst cfg) \<and> BackboneTrials (fst cfg) < MaxTrials (fst cfg) then
        bind_res (SwapCandidateSets cfg)
          (\<lambda>cfg1. let cfg2 = call_proc e AdjustCandidateSet cfg1 in
                  if Trial (fst cfg2) = BackboneTrials (fst cfg2) then
                    (if TraceLevel (fst cfg2) \<ge> 1
                     then ok (call_proc e CandidateReport (printff BackboneCandidates cfg2))
                     else ok cfg2)
                  else SwapCandidateSets cfg2)
      else ok cfg)"

text \<open>The body of the trial loop, lines 65 to 134.\<close>

definition trial_body :: "'w env \<Rightarrow> real \<Rightarrow> 'w config \<Rightarrow> (error + bool \<times> 'w config) option" where
  "trial_body e EntryTime cfg =
     (if fst (time_check e EntryTime cfg) then ok (True, snd (time_check e EntryTime cfg))
      else bind_res (trial_search e (snd (time_check e EntryTime cfg)))
             (\<lambda>(Cost, cfg1).
                if fst (improve_stage e Cost cfg1) then ok (True, snd (improve_stage e Cost cfg1))
                else bind_res (backbone_stage e (snd (improve_stage e Cost cfg1)))
                       (\<lambda>cfg2. ok (False, cfg2))))"

text \<open>\<^verbatim>\<open>for (Trial = 1; Trial <= MaxTrials; Trial++)\<close>, entered after \<^verbatim>\<open>Trial = 1\<close>.\<close>

partial_function (option) trial_loop :: "'w env \<Rightarrow> real \<Rightarrow> 'w config \<Rightarrow> (error + 'w config) option" where
  "trial_loop e EntryTime cfg =
     (if Trial (fst cfg) \<le> MaxTrials (fst cfg) then
        (case trial_body e EntryTime cfg of
           None \<Rightarrow> None
         | Some (Inl err) \<Rightarrow> Some (Inl err)
         | Some (Inr (brk, cfg')) \<Rightarrow>
             if brk then Some (Inr cfg')
             else trial_loop e EntryTime (upd (\<lambda>s. s\<lparr>Trial := Trial s + 1\<rparr>) cfg'))
      else Some (Inr cfg))"

subsection \<open>Exit\<close>

text \<open>Lines 137 to 147.\<close>

definition free_backbone :: "'w config \<Rightarrow> node \<Rightarrow> error + 'w config" where
  "free_backbone cfg t =
     Inr (upd (\<lambda>s. s\<lparr>BackboneCandidateSet := (BackboneCandidateSet s)(t := 0)\<rparr>)
            (fst cfg, snd cfg @ [Free (BackboneCandidateSet (fst cfg) t)]))"

definition backbone_cleanup :: "'w config \<Rightarrow> (error + 'w config) option" where
  "backbone_cleanup cfg =
     (let s = fst cfg in
      if BackboneTrials s > 0 \<and> BackboneTrials s < MaxTrials s then
        bind_res (if Trial s > BackboneTrials s \<or>
                     (Trial s = BackboneTrials s \<and> (StopAtOptimum s = 0 \<or> BetterCost s \<noteq> Optimum s))
                  then SwapCandidateSets cfg else ok cfg)
          (\<lambda>cfg1. ring_do free_backbone (\<lambda>c. Suc_n (fst c)) (\<lambda>c. FirstNode (fst c)) cfg1 (FirstNode (fst cfg1)))
      else ok cfg)"

text \<open>\<^verbatim>\<open>do t = t->BestSuc = t->Suc; while (t != FirstNode);\<close>\<close>

definition suc_to_best :: "'w state \<Rightarrow> node \<Rightarrow> error + 'w state" where
  "suc_to_best s t = Inr (s\<lparr>BestSuc := (BestSuc s)(t := Suc_n s t)\<rparr>)"

text \<open>\<^verbatim>\<open>(t->Suc = t->BestSuc)->Pred = t;\<close>\<close>

definition commit_link :: "'w state \<Rightarrow> node \<Rightarrow> error + 'w state" where
  "commit_link s t =
     (if BestSuc s t = 0 then Inl NullDeref
      else Inr (s\<lparr>Suc_n := (Suc_n s)(t := BestSuc s t), Pred_n := (Pred_n s)(BestSuc s t := t)\<rparr>))"

text \<open>Lines 148 to 157: the working tour becomes the tour of the \<^verbatim>\<open>BestSuc\<close> links.\<close>

definition commit_tour :: "'w state \<Rightarrow> (error + 'w state) option" where
  "commit_tour s =
     bind_res (if Norm s = 0 then ring_do suc_to_best BestSuc FirstNode s (FirstNode s) else ok s)
       (\<lambda>s1. ring_do commit_link BestSuc FirstNode s1 (FirstNode s1))"

definition FindTour_exit :: "'w env \<Rightarrow> 'w config \<Rightarrow> (error + GainType \<times> 'w config) option" where
  "FindTour_exit e cfg =
     bind_res (commit_tour (fst cfg))
       (\<lambda>s1. let s2 = (if Trial s1 > MaxTrials s1 then s1\<lparr>Trial := MaxTrials s1\<rparr> else s1);
                 cfg3 = call_proc e ResetCandidateSet (s2, snd cfg)
             in ok (BetterCost (fst cfg3), cfg3))"

subsection \<open>The whole function\<close>

definition FindTour :: "'w env \<Rightarrow> 'w config \<Rightarrow> (error + GainType \<times> 'w config) option" where
  "FindTour e cfg =
     bind_res (FindTour_entry e cfg)
       (\<lambda>(EntryTime, cfg1).
          bind_res (trial_loop e EntryTime (upd (\<lambda>s. s\<lparr>Trial := 1\<rparr>) cfg1))
            (\<lambda>cfg2. bind_res (backbone_cleanup cfg2) (FindTour_exit e)))"


section \<open>The run driver \<^verbatim>\<open>main\<close>\<close>

text \<open>
  The cast \<^verbatim>\<open>(GainType) LowerBound\<close> drops the fractional part when the
  result fits \<^verbatim>\<open>long long\<close>; otherwise the conversion instruction yields the
  least \<^verbatim>\<open>long long\<close>.
\<close>

definition GainType_of :: "real \<Rightarrow> GainType" where
  "GainType_of x =
     (if - (2 ^ 63) - 1 < x \<and> x < 2 ^ 63 then (if x \<ge> 0 then \<lfloor>x\<rfloor> else \<lceil>x\<rceil>)
      else - (2 ^ 63))"

subsection \<open>Before the runs\<close>

definition solve_subproblems :: "'w env \<Rightarrow> 'w config \<Rightarrow> 'w config" where
  "solve_subproblems e cfg =
     (let s = fst cfg in
      if DelaunayPartitioning s \<noteq> 0 then call_proc e SolveDelaunaySubproblems cfg
      else if KarpPartitioning s \<noteq> 0 then call_proc e SolveKarpSubproblems cfg
      else if KCenterPartitioning s \<noteq> 0 then call_proc e SolveKCenterSubproblems cfg
      else if KMeansPartitioning s \<noteq> 0 then call_proc e SolveKMeansSubproblems cfg
      else if RohePartitioning s \<noteq> 0 then call_proc e SolveRoheSubproblems cfg
      else if MoorePartitioning s \<noteq> 0 \<or> SierpinskiPartitioning s \<noteq> 0 then call_proc e SolveSFCSubproblems cfg
      else call_proc e SolveTourSegmentSubproblems cfg)"

text \<open>Lines 12 to 22: the first clock reading and the two readers.\<close>

definition read_input :: "'w env \<Rightarrow> string list \<Rightarrow> 'w config \<Rightarrow> real \<times> 'w config" where
  "read_input e argv cfg0 =
     (let LastTime = fst (call_GetTime e cfg0);
          cfg1 = snd (call_GetTime e cfg0);
          cfg2 = (if length argv \<ge> 2 then upd (\<lambda>s. s\<lparr>ParameterFileName := Some (argv ! 1)\<rparr>) cfg1 else cfg1);
          cfg3 = call_proc e ReadParameters cfg2;
          cfg4 = upd (\<lambda>s. s\<lparr>MaxMatrixDimension := 10000\<rparr>) cfg3
      in (LastTime, call_proc e ReadProblem cfg4))"

text \<open>Lines 42 to 46.\<close>

definition prepare :: "'w env \<Rightarrow> 'w config \<Rightarrow> 'w config" where
  "prepare e cfg =
     call_proc e InitializeStatistics (call_proc e CreateCandidateSet (call_proc e AllocateStructures cfg))"

text \<open>Lines 48 to 60.\<close>

definition record_best :: "'w env \<Rightarrow> 'w config \<Rightarrow> 'w config" where
  "record_best e cfg =
     (let cfg1 = call_proc e RecordBetterTour cfg;
          cfg2 = call_proc e RecordBestTour cfg1;
          cfg3 = call_proc e (WriteTour OutputTourFileName BestTour (BestCost (fst cfg2))) cfg2
      in call_proc e (WriteTour TourFileName BestTour (BestCost (fst cfg3))) cfg3)"

definition after_ascent :: "'w env \<Rightarrow> real \<Rightarrow> 'w config \<Rightarrow> 'w config" where
  "after_ascent e LastTime cfg =
     (if Norm (fst cfg) \<noteq> 0 then upd (\<lambda>s. s\<lparr>BestCost := PLUS_INFINITY e\<rparr>) cfg
      else
        (let cfg1 = upd (\<lambda>s. s\<lparr>BestCost := GainType_of (LowerBound s), Optimum := GainType_of (LowerBound s)\<rparr>) cfg;
             now = fst (call_GetTime e cfg1);
             cfg2 = snd (call_GetTime e cfg1);
             cfg3 = call_proc e (UpdateStatistics (Optimum (fst cfg1)) (now - LastTime)) cfg2;
             cfg4 = record_best e cfg3
         in upd (\<lambda>s. s\<lparr>Runs := 0\<rparr>) cfg4))"

subsection \<open>One run\<close>

text \<open>Lines 77 to 88: \<^verbatim>\<open>for (i = 0; i < PopulationSize; i++)\<close>.\<close>

definition print_merged :: "'w env \<Rightarrow> 'w config \<Rightarrow> 'w config" where
  "print_merged e cfg =
     (let cfg1 = printff MergedWith cfg;
          cfg2 = (if Optimum (fst cfg1) \<noteq> MINUS_INFINITY e \<and> Optimum (fst cfg1) \<noteq> 0
                  then printff Gap cfg1 else cfg1)
      in printff Newline cfg2)"

partial_function (option) merge_individuals ::
  "'w env \<Rightarrow> int \<Rightarrow> GainType \<Rightarrow> 'w config \<Rightarrow> (error + GainType \<times> 'w config) option"
where
  "merge_individuals e i Cost cfg =
     (if i < PopulationSize (fst cfg) then
        (let OldCost = Cost;
             Cost' = fst (call_func e (MergeTourWithIndividual i) cfg);
             cfg1 = snd (call_func e (MergeTourWithIndividual i) cfg);
             cfg2 = (if TraceLevel (fst cfg1) \<ge> 1 \<and> Cost' < OldCost then print_merged e cfg1 else cfg1)
         in merge_individuals e (i + 1) Cost' cfg2)
      else Some (Inr (Cost, cfg)))"

text \<open>Lines 89 to 100.\<close>

definition update_population :: "'w env \<Rightarrow> GainType \<Rightarrow> 'w config \<Rightarrow> 'w config" where
  "update_population e Cost cfg =
     (let has = fst (call_func e (HasFitness Cost) cfg);
          cfg1 = snd (call_func e (HasFitness Cost) cfg)
      in if has = 0 then
           (if PopulationSize (fst cfg1) < MaxPopulationSize (fst cfg1) then
              (let cfg2 = call_proc e (AddToPopulation Cost) cfg1
               in if TraceLevel (fst cfg2) \<ge> 1 then call_proc e PrintPopulation cfg2 else cfg2)
            else if Cost < Fitness (fst cfg1) (PopulationSize (fst cfg1) - 1) then
              (let i = fst (call_func e (ReplacementIndividual Cost) cfg1);
                   cfg2 = snd (call_func e (ReplacementIndividual Cost) cfg1);
                   cfg3 = call_proc e (ReplaceIndividualWithTour i Cost) cfg2
               in if TraceLevel (fst cfg3) \<ge> 1 then call_proc e PrintPopulation cfg3 else cfg3)
            else cfg1)
         else cfg1)"

text \<open>Lines 74 to 102.\<close>

definition genetic_stage :: "'w env \<Rightarrow> GainType \<Rightarrow> 'w config \<Rightarrow> (error + GainType \<times> 'w config) option" where
  "genetic_stage e Cost cfg =
     (if MaxPopulationSize (fst cfg) > 1 then
        bind_res (merge_individuals e 0 Cost cfg)
          (\<lambda>(Cost', cfg1). ok (Cost', update_population e Cost' cfg1))
      else if Run (fst cfg) > 1 then ok (call_func e MergeTourWithBestTour cfg)
      else ok (Cost, cfg))"

text \<open>Lines 103 to 109.\<close>

definition update_BestCost :: "'w env \<Rightarrow> GainType \<Rightarrow> 'w config \<Rightarrow> 'w config" where
  "update_BestCost e Cost cfg =
     (if Cost < BestCost (fst cfg) then record_best e (upd (\<lambda>s. s\<lparr>BestCost := Cost\<rparr>) cfg)
      else cfg)"

text \<open>\<^verbatim>\<open>while ((N = N->InputSuc = N->Suc) != FirstNode);\<close>\<close>

definition suc_to_input :: "'w state \<Rightarrow> node \<Rightarrow> error + 'w state" where
  "suc_to_input s N = Inr (s\<lparr>InputSuc := (InputSuc s)(N := Suc_n s N)\<rparr>)"

text \<open>Lines 111 to 118.\<close>

definition update_Optimum :: "GainType \<Rightarrow> 'w config \<Rightarrow> (error + 'w config) option" where
  "update_Optimum Cost cfg =
     (let s = fst cfg in
      if Cost < Optimum s then
        bind_res (if FirstNode s = 0 then crash NullDeref
                  else if InputSuc s (FirstNode s) \<noteq> 0
                  then ring_do suc_to_input InputSuc FirstNode s (FirstNode s)
                  else ok s)
          (\<lambda>s1. ok (printff NewOptimum (s1\<lparr>Optimum := Cost\<rparr>, snd cfg)))
      else ok cfg)"

text \<open>Lines 119 to 128.\<close>

definition report_run :: "'w env \<Rightarrow> real \<Rightarrow> GainType \<Rightarrow> 'w config \<Rightarrow> 'w config" where
  "report_run e LastTime Cost cfg =
     (let Time = \<bar>fst (call_GetTime e cfg) - LastTime\<bar>;
          cfg1 = snd (call_GetTime e cfg);
          cfg2 = call_proc e (UpdateStatistics Cost Time) cfg1
      in if TraceLevel (fst cfg2) \<ge> 1 \<and> Cost \<noteq> PLUS_INFINITY e then
           (let cfg3 = printff RunCost cfg2;
                cfg4 = (if Optimum (fst cfg3) \<noteq> MINUS_INFINITY e \<and> Optimum (fst cfg3) \<noteq> 0
                        then printff Gap cfg3 else cfg3)
            in printff TimeAndMark cfg4)
         else cfg2)"

text \<open>Lines 133 to 153: the child of two parents becomes the next initial tour.\<close>

partial_function (option) select_Parent2 :: "'w env \<Rightarrow> int \<Rightarrow> 'w config \<Rightarrow> (error + int \<times> 'w config) option" where
  "select_Parent2 e Parent1 cfg =
     (let Parent2 = fst (call_func e (LinearSelection (PopulationSize (fst cfg)) 1.25) cfg);
          cfg1 = snd (call_func e (LinearSelection (PopulationSize (fst cfg)) 1.25) cfg)
      in if Parent2 = Parent1 then select_Parent2 e Parent1 cfg1
         else Some (Inr (Parent2, cfg1)))"

definition crossover_link :: "'w env \<Rightarrow> 'w config \<Rightarrow> node \<Rightarrow> error + 'w config" where
  "crossover_link e cfg N =
     (let cfg2 =
        (if ProblemType (fst cfg) \<noteq> HCP \<and> ProblemType (fst cfg) \<noteq> HPP then
           (let d = C e (fst cfg) N (Suc_n (fst cfg) N);
                cfg1 = call_proc e (AddCandidate N (Suc_n (fst cfg) N) d (INT_MAX e)) cfg
            in call_proc e (AddCandidate (Suc_n (fst cfg1) N) N d (INT_MAX e)) cfg1)
         else cfg)
      in Inr (upd (\<lambda>s. s\<lparr>InitialSuc := (InitialSuc s)(N := Suc_n s N)\<rparr>) cfg2))"

definition crossover_stage :: "'w env \<Rightarrow> 'w config \<Rightarrow> (error + 'w config) option" where
  "crossover_stage e cfg =
     (let s = fst cfg in
      if PopulationSize s \<ge> 2 \<and>
         (PopulationSize s = MaxPopulationSize s \<or> Run s \<ge> 2 * MaxPopulationSize s) \<and> Run s < Runs s
      then
        (let Parent1 = fst (call_func e (LinearSelection (PopulationSize s) 1.25) cfg);
             cfg1 = snd (call_func e (LinearSelection (PopulationSize s) 1.25) cfg)
         in bind_res (select_Parent2 e Parent1 cfg1)
              (\<lambda>(Parent2, cfg2).
                 let cfg3 = call_proc e (ApplyCrossover Parent1 Parent2) cfg2 in
                 ring_do (crossover_link e) (\<lambda>c. InitialSuc (fst c)) (\<lambda>c. FirstNode (fst c)) cfg3 (FirstNode (fst cfg3))))
      else ok cfg)"

text \<open>
  Lines 64 to 128: the search of one run. It yields the cost of the run, the
  optimum that was in effect before the run could lower it, and the
  configuration.
\<close>

definition run_search :: "'w env \<Rightarrow> 'w config \<Rightarrow> (error + GainType \<times> GainType \<times> 'w config) option" where
  "run_search e cfg =
     (let LastTime = fst (call_GetTime e cfg);
          cfg1 = snd (call_GetTime e cfg)
      in bind_res (FindTour e (fst cfg1, snd cfg1 @ [Enter_FindTour]))
           (\<lambda>(Cost0, cfg2). bind_res (genetic_stage e Cost0 cfg2)
           (\<lambda>(Cost, cfg3).
              let cfg4 = update_BestCost e Cost cfg3;
                  OldOptimum = Optimum (fst cfg4)
              in bind_res (update_Optimum Cost cfg4)
                   (\<lambda>cfg5. ok (Cost, OldOptimum, report_run e LastTime Cost cfg5)))))"

text \<open>Lines 129 to 154: stop, or breed and reseed. The flag is the \<^verbatim>\<open>break\<close>.\<close>

definition run_finish :: "'w env \<Rightarrow> GainType \<Rightarrow> GainType \<Rightarrow> 'w config \<Rightarrow> (error + bool \<times> 'w config) option" where
  "run_finish e Cost OldOptimum cfg =
     (if StopAtOptimum (fst cfg) \<noteq> 0 \<and> Cost = OldOptimum \<and> MaxPopulationSize (fst cfg) \<ge> 1
      then ok (True, upd (\<lambda>s. s\<lparr>Runs := Run s\<rparr>) cfg)
      else bind_res (crossover_stage e cfg)
             (\<lambda>cfg1. let cfg2 = upd (\<lambda>s. s\<lparr>Seed := Seed s + 1\<rparr>) cfg1
                     in ok (False, call_proc e (SRandom (Seed (fst cfg2))) cfg2)))"

text \<open>The body of the run loop.\<close>

definition run_body :: "'w env \<Rightarrow> 'w config \<Rightarrow> (error + bool \<times> 'w config) option" where
  "run_body e cfg =
     bind_res (run_search e cfg) (\<lambda>(Cost, OldOptimum, cfg1). run_finish e Cost OldOptimum cfg1)"

text \<open>\<^verbatim>\<open>for (Run = 1; Run <= Runs; Run++)\<close>, entered after \<^verbatim>\<open>Run = 1\<close>.\<close>

partial_function (option) run_loop :: "'w env \<Rightarrow> 'w config \<Rightarrow> (error + 'w config) option" where
  "run_loop e cfg =
     (if Run (fst cfg) \<le> Runs (fst cfg) then
        (case run_body e cfg of
           None \<Rightarrow> None
         | Some (Inl err) \<Rightarrow> Some (Inl err)
         | Some (Inr (brk, cfg')) \<Rightarrow>
             if brk then Some (Inr cfg')
             else run_loop e (upd (\<lambda>s. s\<lparr>Run := Run s + 1\<rparr>) cfg'))
      else Some (Inr cfg))"

subsection \<open>The whole program\<close>

text \<open>The result is the exit status, \<^verbatim>\<open>EXIT_SUCCESS\<close>.\<close>

definition main :: "'w env \<Rightarrow> string list \<Rightarrow> 'w config \<Rightarrow> (error + int \<times> 'w config) option" where
  "main e argv cfg0 =
     (let LastTime = fst (read_input e argv cfg0);
          cfg1 = snd (read_input e argv cfg0)
      in if SubproblemSize (fst cfg1) > 0 then ok (0, solve_subproblems e cfg1)
         else
           (let cfg2 = after_ascent e LastTime (prepare e cfg1) in
            bind_res (run_loop e (upd (\<lambda>s. s\<lparr>Run := 1\<rparr>) cfg2))
              (\<lambda>cfg3. ok (0, call_proc e PrintStatistics cfg3))))"


section \<open>A small instance\<close>

text \<open>
  Three nodes on the ring 1, 2, 3. The absent procedures are replaced by
  the simplest ones that keep the driver going: \<^verbatim>\<open>RecordBetterTour\<close> copies the
  working tour into the \<^verbatim>\<open>BestSuc\<close> links, \<^verbatim>\<open>LinKernighan\<close> and the merge
  functions hand out costs from a list kept in \<open>world\<close>, and everything else
  does nothing and returns 0. The second component of \<open>world\<close> counts clock
  readings.
\<close>

definition ring3 :: "node \<Rightarrow> node" where
  "ring3 = (\<lambda>t. 0)(1 := 2, 2 := 3, 3 := 1)"

definition ex_state :: "(int list \<times> nat) state" where
  "ex_state = \<lparr>FirstNode = 1, Suc_n = ring3, Pred_n = (\<lambda>t. 0)(1 := 3, 2 := 1, 3 := 2),
     BestSuc = (\<lambda>t. 0), NextBestSuc = (\<lambda>t. 0), OldPred = (\<lambda>t. 0), OldSuc = (\<lambda>t. 0),
     Next_n = (\<lambda>t. 0), InputSuc = (\<lambda>t. 0), InitialSuc = (\<lambda>t. 0), Pi_n = (\<lambda>t. 0),
     CandidateSet = (\<lambda>t. 0), BackboneCandidateSet = (\<lambda>t. 0),
     Run = 1, Runs = 2, Trial = 0, MaxTrials = 2, Dimension = 3, DimensionSaved = 3,
     Precision = 1, Norm = 4, LowerBound = 0, BetterCost = 0, BestCost = 0, Optimum = 5,
     OrdinalTourCost = 0, TimeLimit = 15, TraceLevel = 0, StopAtOptimum = 1,
     BackboneTrials = 0, Hash = 0, Seed = 1, SubproblemSize = 0,
     DelaunayPartitioning = 0, KarpPartitioning = 0, KCenterPartitioning = 0,
     KMeansPartitioning = 0, RohePartitioning = 0, MoorePartitioning = 0,
     SierpinskiPartitioning = 0, MaxPopulationSize = 0, PopulationSize = 0,
     Fitness = (\<lambda>i. 0), ProblemType = TSP, MaxMatrixDimension = 0,
     ParameterFileName = None, world = ([7, 6, 5], 0)\<rparr>"

definition stub_proc :: "call \<Rightarrow> (int list \<times> nat) state \<Rightarrow> (int list \<times> nat) state" where
  "stub_proc c s = (if c = RecordBetterTour then s\<lparr>BestSuc := Suc_n s\<rparr> else s)"

definition stub_func :: "call \<Rightarrow> (int list \<times> nat) state \<Rightarrow> int \<times> (int list \<times> nat) state" where
  "stub_func c s =
     (if c = LinKernighan \<or> c = MergeWithTour \<or> c = MergeTourWithBestTour then
        (case fst (world s) of [] \<Rightarrow> (0, s) | x # xs \<Rightarrow> (x, s\<lparr>world := (xs, snd (world s))\<rparr>))
      else (0, s))"

definition still_clock :: "(int list \<times> nat) state \<Rightarrow> real \<times> (int list \<times> nat) state" where
  "still_clock s = (0, s)"

definition ticking_clock :: "(int list \<times> nat) state \<Rightarrow> real \<times> (int list \<times> nat) state" where
  "ticking_clock s = (10 * real (snd (world s)), s\<lparr>world := (fst (world s), Suc (snd (world s)))\<rparr>)"

definition stub_env :: "(int list \<times> nat) env" where
  "stub_env = \<lparr>PLUS_INFINITY = 1000000, MINUS_INFINITY = - 1000000, INT_MAX = 2147483647,
     proc = stub_proc, func = stub_func, clock = still_clock, C = (\<lambda>s a b. 10)\<rparr>"

text \<open>The tour 1, 3, 2, the reverse of \<open>ring3\<close>.\<close>

definition rev3 :: "node \<Rightarrow> node" where
  "rev3 = (\<lambda>t. 0)(1 := 3, 2 := 1, 3 := 2)"

text \<open>
  A second environment, in which \<^verbatim>\<open>ChooseInitialTour\<close> reverses the working
  tour, so that the working tour and the recorded tour can differ.
\<close>

definition turning_proc :: "call \<Rightarrow> (int list \<times> nat) state \<Rightarrow> (int list \<times> nat) state" where
  "turning_proc c s = (if c = ChooseInitialTour then s\<lparr>Suc_n := Pred_n s, Pred_n := Suc_n s\<rparr> else stub_proc c s)"

definition turning_env :: "(int list \<times> nat) env" where
  "turning_env = stub_env\<lparr>proc := turning_proc\<rparr>"


section \<open>Auxiliary notions for the statements\<close>

text \<open>
  The state after the first \<open>n\<close> rounds of the loop
  \<^verbatim>\<open>do (t->Suc = t->BestSuc)->Pred = t; while ((t = t->BestSuc) != FirstNode);\<close>
  started at \<^verbatim>\<open>FirstNode\<close>.
\<close>

definition links_committed :: "'w state \<Rightarrow> nat \<Rightarrow> 'w state" where
  "links_committed s n =
     s\<lparr>Suc_n := fold (\<lambda>i p. p((BestSuc s ^^ i) (FirstNode s) := (BestSuc s ^^ Suc i) (FirstNode s))) [0..<n] (Suc_n s),
       Pred_n := fold (\<lambda>i p. p((BestSuc s ^^ Suc i) (FirstNode s) := (BestSuc s ^^ i) (FirstNode s))) [0..<n] (Pred_n s)\<rparr>"

text \<open>
  A procedure that leaves the \<^verbatim>\<open>BestSuc\<close> links and \<^verbatim>\<open>FirstNode\<close> alone, as every
  procedure does that does not record a tour.
\<close>

definition keeps_links :: "('w state \<Rightarrow> 'w state) \<Rightarrow> bool" where
  "keeps_links h \<longleftrightarrow> (\<forall>s. BestSuc (h s) = BestSuc s \<and> FirstNode (h s) = FirstNode s)"

text \<open>
  The calls \<^verbatim>\<open>main\<close> makes before the first run or in place of the runs:
  they read the parameters and the problem, and so assign \<^verbatim>\<open>Runs\<close>,
  \<^verbatim>\<open>Optimum\<close>, \<^verbatim>\<open>Seed\<close> and the like, or solve the problem by parts.
\<close>

fun setup_call :: "call \<Rightarrow> bool" where
  "setup_call ReadParameters = True"
| "setup_call ReadProblem = True"
| "setup_call AllocateStructures = True"
| "setup_call CreateCandidateSet = True"
| "setup_call InitializeStatistics = True"
| "setup_call SolveDelaunaySubproblems = True"
| "setup_call SolveKarpSubproblems = True"
| "setup_call SolveKCenterSubproblems = True"
| "setup_call SolveKMeansSubproblems = True"
| "setup_call SolveRoheSubproblems = True"
| "setup_call SolveSFCSubproblems = True"
| "setup_call SolveTourSegmentSubproblems = True"
| "setup_call _ = False"

text \<open>
  An environment preserves a quantity \<open>g\<close> of the globals when none of the
  absent procedures changes it, the setup calls apart.
\<close>

definition preserves :: "'w env \<Rightarrow> ('w state \<Rightarrow> 'a) \<Rightarrow> bool" where
  "preserves e g \<longleftrightarrow>
     (\<forall>c s. \<not> setup_call c \<longrightarrow> g (proc e c s) = g s)
   \<and> (\<forall>c s. \<not> setup_call c \<longrightarrow> g (snd (func e c s)) = g s)
   \<and> (\<forall>s. g (snd (clock e s)) = g s)"

text \<open>
  The links \<open>f\<close> form a tour through \<open>F\<close> when following them from \<open>F\<close> leads
  back to \<open>F\<close> without meeting the null pointer.
\<close>

definition is_tour :: "(node \<Rightarrow> node) \<Rightarrow> node \<Rightarrow> bool" where
  "is_tour f F \<longleftrightarrow> (\<exists>n. (f ^^ Suc n) F = F \<and> (\<forall>i\<le>n. (f ^^ i) F \<noteq> 0))"

definition on_tour :: "(node \<Rightarrow> node) \<Rightarrow> node \<Rightarrow> node \<Rightarrow> bool" where
  "on_tour f F t \<longleftrightarrow> (\<exists>m. t = (f ^^ m) F)"

text \<open>
  The recorded tour is the working tour: every node \<open>t\<close> of the tour of the
  \<^verbatim>\<open>BestSuc\<close> links through \<^verbatim>\<open>FirstNode\<close> has \<^verbatim>\<open>t->Suc == t->BestSuc\<close> and
  \<^verbatim>\<open>t->BestSuc->Pred == t\<close>.
\<close>

definition committed :: "'w state \<Rightarrow> bool" where
  "committed s \<longleftrightarrow>
     (\<forall>t. on_tour (BestSuc s) (FirstNode s) t \<longrightarrow>
        t \<noteq> 0 \<and> Suc_n s t = BestSuc s t \<and> Pred_n s (BestSuc s t) = t)"

text \<open>
  A quantity is out of reach of the two drivers when it does not depend on
  the fields they assign, apart from \<^verbatim>\<open>Optimum\<close> and \<^verbatim>\<open>Seed\<close>.
\<close>

definition out_of_reach :: "('w state \<Rightarrow> 'a) \<Rightarrow> bool" where
  "out_of_reach g \<longleftrightarrow>
     (\<forall>s x. g (s\<lparr>FirstNode := x\<rparr>) = g s) \<and> (\<forall>s x. g (s\<lparr>Suc_n := x\<rparr>) = g s)
   \<and> (\<forall>s x. g (s\<lparr>Pred_n := x\<rparr>) = g s) \<and> (\<forall>s x. g (s\<lparr>BestSuc := x\<rparr>) = g s)
   \<and> (\<forall>s x. g (s\<lparr>NextBestSuc := x\<rparr>) = g s) \<and> (\<forall>s x. g (s\<lparr>OldPred := x\<rparr>) = g s)
   \<and> (\<forall>s x. g (s\<lparr>OldSuc := x\<rparr>) = g s) \<and> (\<forall>s x. g (s\<lparr>Next_n := x\<rparr>) = g s)
   \<and> (\<forall>s x. g (s\<lparr>InputSuc := x\<rparr>) = g s) \<and> (\<forall>s x. g (s\<lparr>InitialSuc := x\<rparr>) = g s)
   \<and> (\<forall>s x. g (s\<lparr>CandidateSet := x\<rparr>) = g s) \<and> (\<forall>s x. g (s\<lparr>BackboneCandidateSet := x\<rparr>) = g s)
   \<and> (\<forall>s x. g (s\<lparr>Run := x\<rparr>) = g s) \<and> (\<forall>s x. g (s\<lparr>Runs := x\<rparr>) = g s)
   \<and> (\<forall>s x. g (s\<lparr>Trial := x\<rparr>) = g s) \<and> (\<forall>s x. g (s\<lparr>BetterCost := x\<rparr>) = g s)
   \<and> (\<forall>s x. g (s\<lparr>BestCost := x\<rparr>) = g s) \<and> (\<forall>s x. g (s\<lparr>OrdinalTourCost := x\<rparr>) = g s)"

text \<open>The calls that mark a run in the log: entering \<^verbatim>\<open>FindTour\<close> and the statistics of the run.\<close>

fun is_run_event :: "call \<Rightarrow> bool" where
  "is_run_event Enter_FindTour = True"
| "is_run_event (UpdateStatistics c t) = True"
| "is_run_event _ = False"

text \<open>
  A clock that only tells the time changes nothing in the globals; it stays
  within a limit when no two of its readings are that far apart.
\<close>

definition tells_time_only :: "'w env \<Rightarrow> bool" where
  "tells_time_only e \<longleftrightarrow> (\<forall>s. snd (clock e s) = s)"

definition within_limit :: "'w env \<Rightarrow> real \<Rightarrow> bool" where
  "within_limit e L \<longleftrightarrow> (\<forall>s s'. fst (clock e s) - fst (clock e s') < L)"

section \<open>Basic facts\<close>

lemma bind_res_simps [simp]:
  "bind_res None f = None"
  "bind_res (Some (Inl err)) f = Some (Inl err)"
  "bind_res (Some (Inr x)) f = f x"
  "bind_res (ok x) f = f x"
  "bind_res (crash err) f = crash err"
  by (simp_all add: bind_res_def ok_def crash_def)

lemma bind_res_Inr:
  "bind_res m f = Some (Inr y) \<longleftrightarrow> (\<exists>x. m = Some (Inr x) \<and> f x = Some (Inr y))"
  by (auto simp: bind_res_def split: option.splits sum.splits)

lemma ok_eq [simp]:
  "ok x = Some (Inr y) \<longleftrightarrow> x = y"
  "ok x \<noteq> Some (Inl err)"
  "ok x \<noteq> None"
  "crash err \<noteq> Some (Inr y)"
  "crash err = Some (Inl err') \<longleftrightarrow> err = err'"
  by (auto simp: ok_def crash_def)

text \<open>
  The proof rule of a ring walk that ends: an invariant of the loop head
  gives the property of the state in which the walk is back at the first node.
\<close>

lemma ring_do_rule:
  assumes run: "ring_do body nxt first s t = Some (Inr s')"
    and init: "I s t"
    and step: "\<And>s t s1. I s t \<Longrightarrow> t \<noteq> 0 \<Longrightarrow> body s t = Inr s1 \<Longrightarrow> nxt s1 t \<noteq> first s1 \<Longrightarrow> I s1 (nxt s1 t)"
    and exit: "\<And>s t s1. I s t \<Longrightarrow> t \<noteq> 0 \<Longrightarrow> body s t = Inr s1 \<Longrightarrow> nxt s1 t = first s1 \<Longrightarrow> Q s1"
  shows "Q s'"
proof -
  define P where "P = (\<lambda>b n f s0 t0 y. b = body \<longrightarrow> n = nxt \<longrightarrow> f = first \<longrightarrow> I s0 t0 \<longrightarrow> (\<forall>s'. y = (Inr s' :: error + 'a) \<longrightarrow> Q s'))"
  have "P body nxt first s t (Inr s')"
  proof (rule ring_do.raw_induct[where P = P, OF _ run])
    fix rd b n f s0 t0 y
    assume IH: "\<And>b n f s0 t0 y. rd b n f s0 t0 = Some y \<Longrightarrow> P b n f s0 t0 y"
      and unf: "(if t0 = 0 then Some (Inl NullDeref)
                else case b s0 t0 of Inl err \<Rightarrow> Some (Inl err)
                     | Inr s' \<Rightarrow> if n s' t0 \<noteq> f s' then rd b n f s' (n s' t0) else Some (Inr s')) = Some y"
    show "P b n f s0 t0 y"
      unfolding P_def
    proof (intro impI allI)
      fix s2 assume eqs: "b = body" "n = nxt" "f = first" and inv: "I s0 t0" and y: "y = Inr s2"
      from unf eqs y have tz: "t0 \<noteq> 0"
        by (auto split: if_splits)
      from unf eqs y tz obtain s1 where bd: "body s0 t0 = Inr s1"
        by (auto split: sum.splits)
      show "Q s2"
      proof (cases "nxt s1 t0 = first s1")
        case True
        with unf eqs y tz bd have "s2 = s1" by simp
        with exit[OF inv tz bd True] show ?thesis by simp
      next
        case False
        with unf eqs y tz bd have "rd body nxt first s1 (nxt s1 t0) = Some (Inr s2)" by simp
        from IH[OF this] step[OF inv tz bd False] show ?thesis by (simp add: P_def)
      qed
    qed
  qed
  with init show ?thesis by (simp add: P_def)
qed

lemmas call_defs = call_proc_def call_func_def call_GetTime_def printff_def upd_def

lemmas stub_defs = stub_env_def stub_proc_def stub_func_def still_clock_def ticking_clock_def
  ex_state_def ring3_def

section \<open>The merge with the tour 1, 2, ..., Dimension\<close>














section \<open>The block for an improving trial\<close>

lemma print_improvement_trace:
  "\<exists>pr. snd (print_improvement e Cost cfg) = snd cfg @ pr \<and> set pr \<subseteq> {Printff ImprovedCost, Printff Gap, Printff TimeAndMark, GetTime}"
  by (auto simp: print_improvement_def call_defs Let_def)

text \<open>
  Claim C1, as the code has it. \<open>improve_stage\<close> is lines 97 to 121, applied
  by \<open>trial_body\<close> to the cost of the trial. Among the calls it adds to the
  log, \<^verbatim>\<open>RecordBetterTour\<close> occurs if and only if the cost of the trial is
  strictly less than \<^verbatim>\<open>BetterCost\<close>, and it is called in a state whose
  \<^verbatim>\<open>BetterCost\<close> is that cost. The other steps of the block have guards of
  their own: the tour is written only if moreover
  \<^verbatim>\<open>Dimension == DimensionSaved\<close> and \<^verbatim>\<open>BetterCost < BestCost\<close>; the loop is left if
  moreover \<^verbatim>\<open>StopAtOptimum\<close> is set and \<^verbatim>\<open>BetterCost == Optimum\<close>; and
  \<^verbatim>\<open>AdjustCandidateSet\<close>, \<^verbatim>\<open>HashInitialize\<close> and \<^verbatim>\<open>HashInsert\<close> are called only if
  the loop is not left. A trial that does not improve changes nothing but
  what reading the clock for its trace line changes.
\<close>

theorem improving_block:
  fixes e :: "'w env" and cfg :: "'w config"
  shows
  "(let r = improve_stage e Cost cfg;
        new = drop (length (snd cfg)) (snd (snd r));
        better = (Cost < BetterCost (fst cfg));
        s3 = proc e RecordBetterTour ((fst (print_improvement e Cost cfg))\<lparr>BetterCost := Cost\<rparr>);
        write = (Dimension s3 = DimensionSaved s3 \<and> BetterCost s3 < BestCost s3);
        s4 = (if write then proc e (WriteTour OutputTourFileName BetterTour (BetterCost s3)) s3 else s3);
        stop = (StopAtOptimum s4 \<noteq> 0 \<and> BetterCost s4 = Optimum s4)
    in (RecordBetterTour \<in> set new \<longleftrightarrow> better)
     \<and> ((\<exists>c. WriteTour OutputTourFileName BetterTour c \<in> set new) \<longleftrightarrow> better \<and> write)
     \<and> (fst r \<longleftrightarrow> better \<and> stop)
     \<and> (AdjustCandidateSet \<in> set new \<longleftrightarrow> better \<and> \<not> stop)
     \<and> (HashInitialize \<in> set new \<longleftrightarrow> better \<and> \<not> stop)
     \<and> ((\<exists>h. HashInsert h Cost \<in> set new) \<longleftrightarrow> better \<and> \<not> stop)
     \<and> (better \<and> stop \<longrightarrow> fst (snd r) = s4)
     \<and> (better \<and> \<not> stop \<longrightarrow>
          fst (snd r) = proc e (HashInsert (Hash (proc e HashInitialize (proc e AdjustCandidateSet s4))) Cost)
                          (proc e HashInitialize (proc e AdjustCandidateSet s4)))
     \<and> (\<not> better \<longrightarrow> fst (snd r) = (if TraceLevel (fst cfg) \<ge> 2 then snd (clock e (fst cfg)) else fst cfg)))"
proof -
  obtain pr where pr: "snd (print_improvement e Cost cfg) = snd cfg @ pr"
    and prs: "set pr \<subseteq> {Printff ImprovedCost, Printff Gap, Printff TimeAndMark, GetTime}"
    using print_improvement_trace by blast
  show ?thesis
  proof (cases "Cost < BetterCost (fst cfg)")
    case True
    with pr prs show ?thesis
      by (auto simp: improve_stage_def record_improvement_def call_defs Let_def)
  next
    case False
    then show ?thesis
      by (auto simp: improve_stage_def call_defs Let_def)
  qed
qed

text \<open>
  On the small instance, with \<^verbatim>\<open>BetterCost\<close> 10, \<^verbatim>\<open>BestCost\<close> 8 and \<^verbatim>\<open>Optimum\<close> 5:
  a trial of cost 5 is recorded, written, and stops the loop; a trial of cost
  12 is not recorded.
\<close>

theorem improving_block_witness:
  "RecordBetterTour \<in> set (snd (snd (improve_stage stub_env 5 (ex_state\<lparr>BetterCost := 10, BestCost := 8\<rparr>, []))))
   \<and> WriteTour OutputTourFileName BetterTour 5
        \<in> set (snd (snd (improve_stage stub_env 5 (ex_state\<lparr>BetterCost := 10, BestCost := 8\<rparr>, []))))
   \<and> fst (improve_stage stub_env 5 (ex_state\<lparr>BetterCost := 10, BestCost := 8\<rparr>, []))
   \<and> HashInitialize \<notin> set (snd (snd (improve_stage stub_env 5 (ex_state\<lparr>BetterCost := 10, BestCost := 8\<rparr>, []))))
   \<and> RecordBetterTour \<notin> set (snd (snd (improve_stage stub_env 12 (ex_state\<lparr>BetterCost := 10, BestCost := 8\<rparr>, []))))"
  using improving_block[of stub_env 5 "(ex_state\<lparr>BetterCost := 10, BestCost := 8\<rparr>, [])"]
    improving_block[of stub_env 12 "(ex_state\<lparr>BetterCost := 10, BestCost := 8\<rparr>, [])"]
  by (simp add: Let_def stub_defs improve_stage_def record_improvement_def print_improvement_def call_defs)

text \<open>
  The claim as the specification words it fails for the steps after
  \<^verbatim>\<open>RecordBetterTour\<close>: an improving trial of cost 5 writes no tour when
  \<^verbatim>\<open>BestCost\<close> is 3, and makes no call for the candidates or the hash table
  when 5 is the optimum.
\<close>

theorem improving_block_counterexample:
  "5 < BetterCost (ex_state\<lparr>BetterCost := 1000000, BestCost := 3, Optimum := 3\<rparr>)
   \<and> snd (snd (improve_stage stub_env 5 (ex_state\<lparr>BetterCost := 1000000, BestCost := 3, Optimum := 3\<rparr>, [])))
       = [RecordBetterTour, AdjustCandidateSet, HashInitialize, HashInsert 0 5]
   \<and> 5 < BetterCost (ex_state\<lparr>BetterCost := 1000000, BestCost := 8\<rparr>)
   \<and> snd (snd (improve_stage stub_env 5 (ex_state\<lparr>BetterCost := 1000000, BestCost := 8\<rparr>, [])))
       = [RecordBetterTour, WriteTour OutputTourFileName BetterTour 5]"
  by (simp add: improve_stage_def record_improvement_def print_improvement_def call_defs stub_defs Let_def)

section \<open>Entry to \<^verbatim>\<open>FindTour\<close>\<close>

text \<open>
  Claim C7, as the code has it. Every call of \<^verbatim>\<open>FindTour\<close> that gets past its
  entry has set \<^verbatim>\<open>BetterCost\<close> to \<^verbatim>\<open>PLUS_INFINITY\<close>; if \<^verbatim>\<open>MaxTrials > 0\<close> its last
  step before the trials is \<^verbatim>\<open>HashInitialize\<close>, so the first trial starts from
  the state that call returns; if \<^verbatim>\<open>MaxTrials <= 0\<close> the hash table is left as
  it was and \<^verbatim>\<open>ChooseInitialTour\<close> is called instead.
\<close>

theorem FindTour_entry_resets:
  assumes "FindTour_entry e cfg = Some (Inr (EntryTime, cfg1))"
  shows "\<exists>s. BetterCost s = PLUS_INFINITY e
           \<and> (if MaxTrials s > 0
               then cfg1 = (proc e HashInitialize s, snd cfg @ [GetTime, HashInitialize])
               else cfg1 = (proc e ChooseInitialTour (s\<lparr>Trial := 1\<rparr>), snd cfg @ [GetTime, ChooseInitialTour]))
           \<and> FindTour e cfg =
               bind_res (trial_loop e EntryTime (upd (\<lambda>s. s\<lparr>Trial := 1\<rparr>) cfg1))
                 (\<lambda>cfg2. bind_res (backbone_cleanup cfg2) (FindTour_exit e))"
proof -
  from assms obtain s2 s3 where
    "init_OrdinalTourCost e s2 = Some (Inr s3)"
    and r: "(if MaxTrials s3 > 0
         then ok (fst (call_GetTime e cfg), call_proc e HashInitialize (s3\<lparr>BetterCost := PLUS_INFINITY e\<rparr>, snd (snd (call_GetTime e cfg))))
         else ok (fst (call_GetTime e cfg), call_proc e ChooseInitialTour (s3\<lparr>BetterCost := PLUS_INFINITY e, Trial := 1\<rparr>, snd (snd (call_GetTime e cfg)))))
       = Some (Inr (EntryTime, cfg1))"
    by (auto simp: FindTour_entry_def Let_def bind_res_Inr)
  have "BetterCost (s3\<lparr>BetterCost := PLUS_INFINITY e\<rparr>) = PLUS_INFINITY e" by simp
  moreover from r have "if MaxTrials (s3\<lparr>BetterCost := PLUS_INFINITY e\<rparr>) > 0
      then cfg1 = (proc e HashInitialize (s3\<lparr>BetterCost := PLUS_INFINITY e\<rparr>), snd cfg @ [GetTime, HashInitialize])
      else cfg1 = (proc e ChooseInitialTour (s3\<lparr>BetterCost := PLUS_INFINITY e, Trial := 1\<rparr>), snd cfg @ [GetTime, ChooseInitialTour])"
    by (auto simp: call_defs split: if_splits)
  moreover from assms have "FindTour e cfg =
               bind_res (trial_loop e EntryTime (upd (\<lambda>s. s\<lparr>Trial := 1\<rparr>) cfg1))
                 (\<lambda>cfg2. bind_res (backbone_cleanup cfg2) (FindTour_exit e))"
    by (simp add: FindTour_def)
  ultimately show ?thesis by blast
qed

text \<open>On the small instance, which has \<^verbatim>\<open>MaxTrials = 2\<close>.\<close>

theorem FindTour_entry_resets_witness:
  "\<exists>s. BetterCost s = PLUS_INFINITY stub_env \<and> 0 < MaxTrials s
      \<and> map_option (map_sum id snd) (FindTour_entry stub_env (ex_state, []))
          = Some (Inr (proc stub_env HashInitialize s, [GetTime, HashInitialize]))"
proof -
  have "\<exists>cfg1. FindTour_entry stub_env (ex_state, []) = Some (Inr (0, cfg1)) \<and> snd cfg1 = [GetTime, HashInitialize]"
    by (simp add: FindTour_entry_def init_OrdinalTourCost_def ordinal_sum_def ordinal_term_def wrap_def clear_links_def call_defs stub_defs
        ring_do.simps Let_def upto.simps signed_divide_int_def ok_def crash_def)
  then obtain cfg1 where r: "FindTour_entry stub_env (ex_state, []) = Some (Inr (0, cfg1))"
    and t: "snd cfg1 = [GetTime, HashInitialize]" by blast
  from FindTour_entry_resets[OF r] obtain s where
    b: "BetterCost s = PLUS_INFINITY stub_env"
    and c: "if MaxTrials s > 0
            then cfg1 = (proc stub_env HashInitialize s, [] @ [GetTime, HashInitialize])
            else cfg1 = (proc stub_env ChooseInitialTour (s\<lparr>Trial := 1\<rparr>), [] @ [GetTime, ChooseInitialTour])"
    by auto
  from c t have m: "0 < MaxTrials s" by (auto split: if_splits)
  with c have "cfg1 = (proc stub_env HashInitialize s, [GetTime, HashInitialize])" by simp
  with r b m show ?thesis by auto
qed

text \<open>
  The claim as the specification words it fails for \<^verbatim>\<open>MaxTrials = 0\<close>: the entry
  makes no call of \<^verbatim>\<open>HashInitialize\<close>.
\<close>

theorem FindTour_entry_counterexample:
  "map_option (map_sum id (\<lambda>r. snd (snd r))) (FindTour_entry stub_env (ex_state\<lparr>MaxTrials := 0\<rparr>, []))
     = Some (Inr [GetTime, ChooseInitialTour])"
  by (simp add: FindTour_entry_def init_OrdinalTourCost_def ordinal_sum_def ordinal_term_def wrap_def clear_links_def call_defs stub_defs
        ring_do.simps Let_def upto.simps signed_divide_int_def ok_def crash_def)

section \<open>Exit from \<^verbatim>\<open>FindTour\<close>\<close>

subsection \<open>Iterating a link function around a cycle\<close>

lemma funpow_cycle_mod:
  assumes "(f ^^ Suc n) a = a"
  shows "(f ^^ m) a = (f ^^ (m mod Suc n)) a"
proof -
  have fx: "((f ^^ Suc n) ^^ q) a = a" for q
  proof (induction q)
    case 0
    show ?case by simp
  next
    case (Suc q)
    have "((f ^^ Suc n) ^^ Suc q) a = (f ^^ Suc n) (((f ^^ Suc n) ^^ q) a)"
      by (simp only: funpow.simps(2)[of q] o_apply)
    with Suc assms show ?case by (simp only:)
  qed
  have "(f ^^ m) a = (f ^^ (m mod Suc n + Suc n * (m div Suc n))) a"
    by (simp only: mod_mult_div_eq)
  also have "\<dots> = (f ^^ (m mod Suc n)) (((f ^^ Suc n) ^^ (m div Suc n)) a)"
    by (simp only: funpow_add funpow_mult o_apply)
  finally show ?thesis by (simp only: fx)
qed

lemma funpow_cycle_inj:
  assumes cyc: "(f ^^ Suc n) a = a"
    and first: "\<And>i. 0 < i \<Longrightarrow> i \<le> n \<Longrightarrow> (f ^^ i) a \<noteq> a"
    and ij: "i \<le> n" "j \<le> n" "(f ^^ i) a = (f ^^ j) a"
  shows "i = j"
proof -
  have aux: False if lt: "p < q" and q: "q \<le> n" and eq: "(f ^^ p) a = (f ^^ q) a" for p q
  proof -
    have "(f ^^ (Suc n - q + p)) a = (f ^^ (Suc n - q)) ((f ^^ p) a)"
      by (simp only: funpow_add o_apply)
    also have "\<dots> = (f ^^ (Suc n - q)) ((f ^^ q) a)" by (simp only: eq)
    also have "\<dots> = (f ^^ (Suc n - q + q)) a" by (simp only: funpow_add o_apply)
    also from q have "\<dots> = (f ^^ Suc n) a" by simp
    also note cyc
    finally have e: "(f ^^ (Suc n - q + p)) a = a" .
    from lt q have "0 < Suc n - q + p" "Suc n - q + p \<le> n" by auto
    from first[OF this] e show False by (rule notE)
  qed
  show ?thesis
  proof (cases i j rule: linorder_cases)
    case less
    from aux[OF less ij(2) ij(3)] show ?thesis by (rule FalseE)
  next
    case greater
    from aux[OF greater ij(1) ij(3)[symmetric]] show ?thesis by (rule FalseE)
  qed simp
qed

lemma fold_upd_inj:
  assumes "inj_on k {..<m}" "i < m"
  shows "fold (\<lambda>i p. p(k i := v i)) [0..<m] p0 (k i) = v i"
  using assms
proof (induction m)
  case 0 then show ?case by simp
next
  case (Suc m)
  show ?case
  proof (cases "i = m")
    case True then show ?thesis by simp
  next
    case False
    with Suc.prems have im: "i < m" by simp
    from Suc.prems(1) have inj: "inj_on k {..<m}" by (rule inj_on_subset) auto
    from Suc.prems(1) im have "k i \<noteq> k m" by (auto simp: inj_on_def)
    with Suc.IH[OF inj im] show ?thesis by simp
  qed
qed

lemma Suc_mod_inj:
  "i \<le> n \<Longrightarrow> j \<le> n \<Longrightarrow> Suc i mod Suc n = Suc j mod Suc n \<Longrightarrow> i = j"
  by (cases "i = n"; cases "j = n") auto

subsection \<open>A loop around a tour ends\<close>

lemma ring_do_total:
  assumes cyc: "(f ^^ Suc n) F = F" and nz: "\<And>i. i \<le> n \<Longrightarrow> (f ^^ i) F \<noteq> 0"
    and step: "\<And>\<sigma> i. i \<le> n \<Longrightarrow> Inv i \<sigma> \<Longrightarrow>
                 \<exists>\<sigma>'. body \<sigma> ((f ^^ i) F) = Inr \<sigma>' \<and> Inv (Suc i) \<sigma>'
                    \<and> nxt \<sigma>' ((f ^^ i) F) = (f ^^ Suc i) F \<and> first \<sigma>' = F"
    and inv: "Inv k s" and k: "k \<le> n"
  shows "\<exists>s' j. ring_do body nxt first s ((f ^^ k) F) = Some (Inr s') \<and> j \<le> n
            \<and> Inv (Suc j) s' \<and> (f ^^ Suc j) F = F"
  using inv k
proof (induction "n - k" arbitrary: k s)
  case 0
  then have kn: "k = n" by simp
  from step[OF "0.prems"(2,1)] obtain \<sigma>' where b: "body s ((f ^^ k) F) = Inr \<sigma>'"
    and i: "Inv (Suc k) \<sigma>'" and x: "nxt \<sigma>' ((f ^^ k) F) = (f ^^ Suc k) F" and fi: "first \<sigma>' = F"
    by blast
  from x cyc kn fi have stop: "nxt \<sigma>' ((f ^^ k) F) = first \<sigma>'" by simp
  have "ring_do body nxt first s ((f ^^ k) F) = Some (Inr \<sigma>')"
    by (subst ring_do.simps) (simp add: nz[OF "0.prems"(2)] b stop)
  with i cyc kn show ?case by blast
next
  case (Suc d)
  from step[OF Suc.prems(2,1)] obtain \<sigma>' where b: "body s ((f ^^ k) F) = Inr \<sigma>'"
    and i: "Inv (Suc k) \<sigma>'" and x: "nxt \<sigma>' ((f ^^ k) F) = (f ^^ Suc k) F" and fi: "first \<sigma>' = F"
    by blast
  show ?case
  proof (cases "(f ^^ Suc k) F = F")
    case True
    with x fi have stop: "nxt \<sigma>' ((f ^^ k) F) = first \<sigma>'" by simp
    have "ring_do body nxt first s ((f ^^ k) F) = Some (Inr \<sigma>')"
      by (subst ring_do.simps) (simp add: nz[OF Suc.prems(2)] b stop)
    with i True Suc.prems(2) show ?thesis by blast
  next
    case False
    from x have x': "nxt \<sigma>' ((f ^^ k) F) = f ((f ^^ k) F)" by simp
    from False fi have go: "f ((f ^^ k) F) \<noteq> first \<sigma>'" by simp
    from Suc(2) have d: "d = n - Suc k" and k': "Suc k \<le> n" by simp_all
    have "ring_do body nxt first s ((f ^^ k) F) = ring_do body nxt first \<sigma>' ((f ^^ Suc k) F)"
      by (subst ring_do.simps) (simp add: nz[OF Suc.prems(2)] b go x')
    with Suc(1)[OF d i k'] show ?thesis by simp
  qed
qed

lemma fold_upd_fun:
  "fold (\<lambda>i p. p(x i := h (x i))) [0..<k] p0 = (\<lambda>t. if \<exists>i<k. x i = t then h t else p0 t)"
proof (induction k)
  case 0 then show ?case by simp
next
  case (Suc k)
  then show ?case by (auto simp: fun_eq_iff less_Suc_eq)
qed

lemma on_tour_bounded:
  assumes "(f ^^ Suc n) F = F"
  shows "on_tour f F t \<longleftrightarrow> (\<exists>i<Suc n. (f ^^ i) F = t)"
proof
  assume "on_tour f F t"
  then obtain m where "t = (f ^^ m) F" by (auto simp: on_tour_def)
  then have "(f ^^ (m mod Suc n)) F = t" using funpow_cycle_mod[OF assms, of m] by simp
  moreover have "m mod Suc n < Suc n" by (simp del: mod_Suc_eq)
  ultimately show "\<exists>i<Suc n. (f ^^ i) F = t" by blast
next
  assume "\<exists>i<Suc n. (f ^^ i) F = t"
  then show "on_tour f F t" by (auto simp: on_tour_def)
qed

subsection \<open>The loop that makes the best tour the working tour\<close>

lemma links_committed_fields [simp]:
  "BestSuc (links_committed s n) = BestSuc s"
  "FirstNode (links_committed s n) = FirstNode s"
  "links_committed s 0 = s"
  by (simp_all add: links_committed_def)

lemma commit_link_step:
  "commit_link (links_committed s n) ((BestSuc s ^^ n) (FirstNode s)) =
     (if (BestSuc s ^^ Suc n) (FirstNode s) = 0 then Inl NullDeref else Inr (links_committed s (Suc n)))"
  by (simp add: commit_link_def links_committed_def)

lemma commit_ring_unroll:
  assumes "ring_do commit_link BestSuc FirstNode s (FirstNode s) = Some (Inr s')"
  shows "\<exists>n. (BestSuc s ^^ Suc n) (FirstNode s) = FirstNode s
            \<and> (\<forall>i. 0 < i \<and> i \<le> n \<longrightarrow> (BestSuc s ^^ i) (FirstNode s) \<noteq> FirstNode s)
            \<and> (\<forall>i \<le> n. (BestSuc s ^^ i) (FirstNode s) \<noteq> 0)
            \<and> s' = links_committed s (Suc n)"
proof -
  let ?b = "BestSuc s" and ?F = "FirstNode s"
  let ?I = "\<lambda>\<sigma> t. \<exists>n. t = (?b ^^ n) ?F
            \<and> (\<forall>i. 0 < i \<and> i \<le> n \<longrightarrow> (?b ^^ i) ?F \<noteq> ?F)
            \<and> (\<forall>i < n. (?b ^^ i) ?F \<noteq> 0)
            \<and> \<sigma> = links_committed s n"
  let ?Q = "\<lambda>\<sigma>. \<exists>n. (?b ^^ Suc n) ?F = ?F
            \<and> (\<forall>i. 0 < i \<and> i \<le> n \<longrightarrow> (?b ^^ i) ?F \<noteq> ?F)
            \<and> (\<forall>i \<le> n. (?b ^^ i) ?F \<noteq> 0)
            \<and> \<sigma> = links_committed s (Suc n)"
  have "?Q s'"
  proof (rule ring_do_rule[OF assms, where I = ?I and Q = ?Q])
    show "?I s ?F"
      by (rule exI[of _ 0]) auto
  next
    fix \<sigma> t s1
    assume inv: "?I \<sigma> t" and tz: "t \<noteq> 0" and body: "commit_link \<sigma> t = Inr s1"
      and cont: "BestSuc s1 t \<noteq> FirstNode s1"
    from inv obtain n where t: "t = (?b ^^ n) ?F"
      and nf: "\<forall>i. 0 < i \<and> i \<le> n \<longrightarrow> (?b ^^ i) ?F \<noteq> ?F"
      and nz: "\<forall>i < n. (?b ^^ i) ?F \<noteq> 0"
      and sg: "\<sigma> = links_committed s n" by blast
    from body have s1: "s1 = links_committed s (Suc n)"
      unfolding sg t commit_link_step by (simp split: if_splits)
    from cont have ne: "(?b ^^ Suc n) ?F \<noteq> ?F"
      unfolding s1 t by simp
    have a: "\<forall>i. 0 < i \<and> i \<le> Suc n \<longrightarrow> (?b ^^ i) ?F \<noteq> ?F"
      using nf ne by (metis le_SucE)
    have b: "\<forall>i < Suc n. (?b ^^ i) ?F \<noteq> 0"
      using nz tz t by (metis less_SucE)
    have c: "BestSuc s1 t = (?b ^^ Suc n) ?F"
      unfolding s1 t by simp
    show "?I s1 (BestSuc s1 t)"
      using a b c s1 by blast
  next
    fix \<sigma> t s1
    assume inv: "?I \<sigma> t" and tz: "t \<noteq> 0" and body: "commit_link \<sigma> t = Inr s1"
      and stop: "BestSuc s1 t = FirstNode s1"
    from inv obtain n where t: "t = (?b ^^ n) ?F"
      and nf: "\<forall>i. 0 < i \<and> i \<le> n \<longrightarrow> (?b ^^ i) ?F \<noteq> ?F"
      and nz: "\<forall>i < n. (?b ^^ i) ?F \<noteq> 0"
      and sg: "\<sigma> = links_committed s n" by blast
    from body have s1: "s1 = links_committed s (Suc n)"
      unfolding sg t commit_link_step by (simp split: if_splits)
    from stop have eq: "(?b ^^ Suc n) ?F = ?F"
      unfolding s1 t by simp
    have b: "\<forall>i \<le> n. (?b ^^ i) ?F \<noteq> 0"
      using nz tz t by (metis le_neq_implies_less)
    show "?Q s1"
      using eq nf b s1 by blast
  qed
  then show ?thesis .
qed

lemma commit_ring_post:
  assumes run: "ring_do commit_link BestSuc FirstNode s (FirstNode s) = Some (Inr s')"
  shows "BestSuc s' = BestSuc s \<and> FirstNode s' = FirstNode s
       \<and> (\<forall>m. (BestSuc s ^^ m) (FirstNode s) \<noteq> 0
              \<and> Suc_n s' ((BestSuc s ^^ m) (FirstNode s)) = BestSuc s ((BestSuc s ^^ m) (FirstNode s))
              \<and> Pred_n s' (BestSuc s ((BestSuc s ^^ m) (FirstNode s))) = (BestSuc s ^^ m) (FirstNode s))"
proof -
  let ?b = "BestSuc s" and ?F = "FirstNode s"
  from commit_ring_unroll[OF run] obtain n where cyc: "(?b ^^ Suc n) ?F = ?F"
    and nf: "\<forall>i. 0 < i \<and> i \<le> n \<longrightarrow> (?b ^^ i) ?F \<noteq> ?F"
    and nz: "\<forall>i \<le> n. (?b ^^ i) ?F \<noteq> 0"
    and s': "s' = links_committed s (Suc n)" by blast
  have inj1: "inj_on (\<lambda>i. (?b ^^ i) ?F) {..<Suc n}"
  proof (rule inj_onI)
    fix i j assume "i \<in> {..<Suc n}" "j \<in> {..<Suc n}" and eq: "(?b ^^ i) ?F = (?b ^^ j) ?F"
    then have "i \<le> n" "j \<le> n" by auto
    from funpow_cycle_inj[OF cyc _ this eq] nf show "i = j" by blast
  qed
  have inj2: "inj_on (\<lambda>i. (?b ^^ Suc i) ?F) {..<Suc n}"
  proof (rule inj_onI)
    fix i j assume "i \<in> {..<Suc n}" "j \<in> {..<Suc n}" and eq: "(?b ^^ Suc i) ?F = (?b ^^ Suc j) ?F"
    then have ij: "i \<le> n" "j \<le> n" by auto
    from eq have "(?b ^^ (Suc i mod Suc n)) ?F = (?b ^^ (Suc j mod Suc n)) ?F"
      by (simp only: funpow_cycle_mod[OF cyc, symmetric])
    moreover have "Suc i mod Suc n \<le> n" "Suc j mod Suc n \<le> n"
      by (simp_all add: less_Suc_eq_le[symmetric] del: mod_Suc_eq)
    ultimately have "Suc i mod Suc n = Suc j mod Suc n"
      using funpow_cycle_inj[OF cyc] nf by blast
    with ij show "i = j" by (rule Suc_mod_inj)
  qed
  have step: "(?b ^^ Suc i) ?F = ?b ((?b ^^ i) ?F)" for i by simp
  have main: "(?b ^^ m) ?F \<noteq> 0
              \<and> Suc_n s' ((?b ^^ m) ?F) = ?b ((?b ^^ m) ?F)
              \<and> Pred_n s' (?b ((?b ^^ m) ?F)) = (?b ^^ m) ?F" for m
  proof -
    define i where "i = m mod Suc n"
    have i: "i < Suc n" by (simp add: i_def del: mod_Suc_eq)
    have t: "(?b ^^ m) ?F = (?b ^^ i) ?F"
      unfolding i_def by (rule funpow_cycle_mod[OF cyc])
    from i nz have "(?b ^^ i) ?F \<noteq> 0" by simp
    moreover have "Suc_n s' ((?b ^^ i) ?F) = (?b ^^ Suc i) ?F"
      unfolding s' links_committed_def using fold_upd_inj[OF inj1 i, of "\<lambda>i. (?b ^^ Suc i) ?F" "Suc_n s"]
      by simp
    moreover have "Pred_n s' ((?b ^^ Suc i) ?F) = (?b ^^ i) ?F"
      unfolding s' links_committed_def using fold_upd_inj[OF inj2 i, of "\<lambda>i. (?b ^^ i) ?F" "Pred_n s"]
      by simp
    ultimately show ?thesis unfolding t by (simp only: step) simp
  qed
  from s' have "BestSuc s' = ?b" "FirstNode s' = ?F" by simp_all
  with main show ?thesis by blast
qed

text \<open>Unfolding the whole of \<^verbatim>\<open>FindTour\<close> on a concrete input.\<close>

lemmas eval_defs = FindTour_def FindTour_entry_def FindTour_exit_def commit_tour_def
  backbone_cleanup_def trial_body_def trial_search_def time_check_def choose_FirstNode_def
  merge_with_best_def merge_with_ordinal_def improve_stage_def record_improvement_def
  print_improvement_def backbone_stage_def init_OrdinalTourCost_def ordinal_sum_def ordinal_term_def wrap_def
  call_defs bind_res_def ok_def crash_def
  clear_links_def best_to_Next_def commit_link_def suc_to_best_def ordinal_Next_def
  ring_do.simps trial_loop.simps Let_def upto.simps signed_modulo_int_def signed_divide_int_def

lemma fold_upd_other:
  "(\<And>i. i < k \<Longrightarrow> x i \<noteq> t) \<Longrightarrow> fold (\<lambda>i p. p(x i := y i)) [0..<k] p0 t = p0 t"
proof (induction k)
  case 0 show ?case by simp
next
  case (Suc k)
  from Suc.prems[of k] have "x k \<noteq> t" by simp
  moreover from Suc.prems have "fold (\<lambda>i p. p(x i := y i)) [0..<k] p0 t = p0 t"
    by (intro Suc.IH) simp
  ultimately show ?case by (simp add: fun_upd_def)
qed

lemma commit_ring_total:
  assumes t: "is_tour (BestSuc s) (FirstNode s)"
  shows "\<exists>sc. ring_do commit_link BestSuc FirstNode s (FirstNode s) = Some (Inr sc)
           \<and> sc = s\<lparr>Suc_n := Suc_n sc, Pred_n := Pred_n sc\<rparr>
           \<and> committed sc
           \<and> (\<forall>t. \<not> on_tour (BestSuc s) (FirstNode s) t \<longrightarrow> Suc_n sc t = Suc_n s t \<and> Pred_n sc t = Pred_n s t)"
proof -
  let ?b = "BestSuc s" and ?F = "FirstNode s"
  from t obtain n where cyc: "(?b ^^ Suc n) ?F = ?F" and nz: "\<And>i. i \<le> n \<Longrightarrow> (?b ^^ i) ?F \<noteq> 0"
    by (auto simp: is_tour_def)
  have nz': "(?b ^^ Suc i) ?F \<noteq> 0" if "i \<le> n" for i
  proof (cases "i = n")
    case True
    with cyc nz[of 0] show ?thesis by simp
  next
    case False
    with that have "Suc i \<le> n" by simp
    then show ?thesis by (rule nz)
  qed
  have "\<exists>s' j. ring_do commit_link BestSuc FirstNode s ((?b ^^ 0) ?F) = Some (Inr s') \<and> j \<le> n
            \<and> s' = links_committed s (Suc j) \<and> (?b ^^ Suc j) ?F = ?F"
  proof (rule ring_do_total[where Inv = "\<lambda>i \<sigma>. \<sigma> = links_committed s i", OF cyc nz])
    show "s = links_committed s 0" by simp
    show "(0::nat) \<le> n" by simp
    fix \<sigma> i assume i: "i \<le> n" and \<sigma>: "\<sigma> = links_committed s i"
    show "\<exists>\<sigma>'. commit_link \<sigma> ((?b ^^ i) ?F) = Inr \<sigma>' \<and> \<sigma>' = links_committed s (Suc i)
                    \<and> BestSuc \<sigma>' ((?b ^^ i) ?F) = (?b ^^ Suc i) ?F \<and> FirstNode \<sigma>' = ?F"
      unfolding \<sigma> commit_link_step using nz'[OF i] by simp
  qed
  then obtain sc j where r: "ring_do commit_link BestSuc FirstNode s ?F = Some (Inr sc)"
    and sc: "sc = links_committed s (Suc j)" and c: "(?b ^^ Suc j) ?F = ?F" by auto
  from commit_ring_post[OF r] have eq: "BestSuc sc = ?b" "FirstNode sc = ?F"
    and post: "\<And>m. (?b ^^ m) ?F \<noteq> 0 \<and> Suc_n sc ((?b ^^ m) ?F) = ?b ((?b ^^ m) ?F)
                  \<and> Pred_n sc (?b ((?b ^^ m) ?F)) = (?b ^^ m) ?F"
    by blast+
  have com: "committed sc"
    unfolding committed_def eq on_tour_def using post by blast
  have rec: "sc = s\<lparr>Suc_n := Suc_n sc, Pred_n := Pred_n sc\<rparr>"
    unfolding sc links_committed_def by simp
  have off: "Suc_n sc t = Suc_n s t \<and> Pred_n sc t = Pred_n s t" if "\<not> on_tour ?b ?F t" for t
  proof -
    from that have a: "(?b ^^ i) ?F \<noteq> t" for i by (auto simp: on_tour_def)
    have "Suc_n sc t = Suc_n s t"
      unfolding sc links_committed_def by (simp del: upt_Suc funpow.simps) (rule fold_upd_other, rule a)
    moreover have "Pred_n sc t = Pred_n s t"
      unfolding sc links_committed_def by (simp del: upt_Suc funpow.simps) (rule fold_upd_other, rule a)
    ultimately show ?thesis ..
  qed
  from r rec com off show ?thesis by blast
qed

lemma suc_to_best_total:
  assumes "is_tour (Suc_n s) (FirstNode s)"
  shows "ring_do suc_to_best BestSuc FirstNode s (FirstNode s) =
           Some (Inr (s\<lparr>BestSuc := \<lambda>t. if on_tour (Suc_n s) (FirstNode s) t then Suc_n s t else BestSuc s t\<rparr>))"
proof -
  let ?g = "Suc_n s" and ?F = "FirstNode s"
  from assms obtain n where cyc: "(?g ^^ Suc n) ?F = ?F" and nz: "\<And>i. i \<le> n \<Longrightarrow> (?g ^^ i) ?F \<noteq> 0"
    by (auto simp: is_tour_def)
  define Inv where "Inv = (\<lambda>i \<sigma>. \<sigma> = s\<lparr>BestSuc := fold (\<lambda>i p. p((?g ^^ i) ?F := ?g ((?g ^^ i) ?F))) [0..<i] (BestSuc s)\<rparr>)"
  have "\<exists>s' j. ring_do suc_to_best BestSuc FirstNode s ((?g ^^ 0) ?F) = Some (Inr s') \<and> j \<le> n
            \<and> Inv (Suc j) s' \<and> (?g ^^ Suc j) ?F = ?F"
  proof (rule ring_do_total[where Inv = Inv, OF cyc nz])
    show "Inv 0 s" by (simp add: Inv_def)
    show "(0::nat) \<le> n" by simp
    fix \<sigma> i assume "i \<le> n" "Inv i \<sigma>"
    then show "\<exists>\<sigma>'. suc_to_best \<sigma> ((?g ^^ i) ?F) = Inr \<sigma>' \<and> Inv (Suc i) \<sigma>'
                    \<and> BestSuc \<sigma>' ((?g ^^ i) ?F) = (?g ^^ Suc i) ?F \<and> FirstNode \<sigma>' = ?F"
      by (simp add: Inv_def suc_to_best_def)
  qed
  then obtain s' j where r: "ring_do suc_to_best BestSuc FirstNode s ?F = Some (Inr s')"
    and i: "Inv (Suc j) s'" and c: "(?g ^^ Suc j) ?F = ?F" by auto
  from i have "s' = s\<lparr>BestSuc := \<lambda>t. if \<exists>i<Suc j. (?g ^^ i) ?F = t then ?g t else BestSuc s t\<rparr>"
    unfolding Inv_def fold_upd_fun[of "\<lambda>i. (?g ^^ i) ?F" ?g] .
  then have "s' = s\<lparr>BestSuc := \<lambda>t. if on_tour ?g ?F t then ?g t else BestSuc s t\<rparr>"
    by (simp only: on_tour_bounded[OF c])
  with r show ?thesis by simp
qed

lemma funpow_agree:
  assumes "\<And>t. on_tour g F t \<Longrightarrow> b t = g t"
  shows "(b ^^ m) F = (g ^^ m) F"
proof (induction m)
  case 0 show ?case by simp
next
  case (Suc m)
  have "on_tour g F ((g ^^ m) F)" by (auto simp: on_tour_def)
  from assms[OF this] Suc show ?case by simp
qed

lemma tour_agree:
  assumes a: "\<And>t. on_tour g F t \<Longrightarrow> b t = g t"
  shows "is_tour b F = is_tour g F" "on_tour b F = on_tour g F"
proof -
  have e: "(b ^^ m) F = (g ^^ m) F" for m by (rule funpow_agree[of g F b, OF a])
  show "is_tour b F = is_tour g F" unfolding is_tour_def e ..
  show "on_tour b F = on_tour g F" unfolding on_tour_def e ..
qed


lemma FindTour_exit_result:
  assumes "commit_tour (fst cfg) = Some (Inr sc)"
  shows "FindTour_exit e cfg =
           Some (Inr (BetterCost (proc e ResetCandidateSet (if Trial sc > MaxTrials sc then sc\<lparr>Trial := MaxTrials sc\<rparr> else sc)),
                      (proc e ResetCandidateSet (if Trial sc > MaxTrials sc then sc\<lparr>Trial := MaxTrials sc\<rparr> else sc),
                       snd cfg @ [ResetCandidateSet])))"
  using assms by (simp add: FindTour_exit_def call_defs Let_def ok_def)

lemma commit_tour_best:
  assumes n: "Norm s \<noteq> 0" and t: "is_tour (BestSuc s) (FirstNode s)"
  shows "\<exists>sc. commit_tour s = Some (Inr sc)
           \<and> sc = s\<lparr>Suc_n := Suc_n sc, Pred_n := Pred_n sc\<rparr>
           \<and> committed sc
           \<and> (\<forall>t. \<not> on_tour (BestSuc s) (FirstNode s) t \<longrightarrow> Suc_n sc t = Suc_n s t \<and> Pred_n sc t = Pred_n s t)"
  using commit_ring_total[OF t] n by (simp add: commit_tour_def ok_def)

lemma commit_tour_working:
  assumes n: "Norm s = 0" and t: "is_tour (Suc_n s) (FirstNode s)"
  shows "\<exists>sc. commit_tour s = Some (Inr sc)
           \<and> sc = s\<lparr>BestSuc := \<lambda>t. if on_tour (Suc_n s) (FirstNode s) t then Suc_n s t else BestSuc s t,
                    Suc_n := Suc_n sc, Pred_n := Pred_n sc\<rparr>
           \<and> committed sc
           \<and> (\<forall>t. \<not> on_tour (Suc_n s) (FirstNode s) t \<longrightarrow> Suc_n sc t = Suc_n s t \<and> Pred_n sc t = Pred_n s t)"
proof -
  define sb where "sb = s\<lparr>BestSuc := \<lambda>t. if on_tour (Suc_n s) (FirstNode s) t then Suc_n s t else BestSuc s t\<rparr>"
  have ag: "BestSuc sb t = Suc_n s t" if "on_tour (Suc_n s) (FirstNode s) t" for t
    using that by (simp add: sb_def)
  have f: "FirstNode sb = FirstNode s" "Suc_n sb = Suc_n s" "Pred_n sb = Pred_n s" by (simp_all add: sb_def)
  from tour_agree[of "Suc_n s" "FirstNode s" "BestSuc sb", OF ag]
  have e: "is_tour (BestSuc sb) (FirstNode sb) = is_tour (Suc_n s) (FirstNode s)"
    "on_tour (BestSuc sb) (FirstNode sb) = on_tour (Suc_n s) (FirstNode s)"
    by (simp_all add: f)
  from t e have tb: "is_tour (BestSuc sb) (FirstNode sb)" by simp
  from commit_ring_total[OF tb] obtain sc where
    r: "ring_do commit_link BestSuc FirstNode sb (FirstNode sb) = Some (Inr sc)"
    and rec: "sc = sb\<lparr>Suc_n := Suc_n sc, Pred_n := Pred_n sc\<rparr>"
    and com: "committed sc"
    and off: "\<forall>t. \<not> on_tour (BestSuc sb) (FirstNode sb) t \<longrightarrow> Suc_n sc t = Suc_n sb t \<and> Pred_n sc t = Pred_n sb t"
    by blast
  have ct: "commit_tour s = Some (Inr sc)"
    using n r unfolding commit_tour_def suc_to_best_total[OF t] sb_def[symmetric] by simp
  from rec have rec': "sc = s\<lparr>BestSuc := \<lambda>t. if on_tour (Suc_n s) (FirstNode s) t then Suc_n s t else BestSuc s t,
                    Suc_n := Suc_n sc, Pred_n := Pred_n sc\<rparr>"
    unfolding sb_def .
  from off have off': "\<forall>t. \<not> on_tour (Suc_n s) (FirstNode s) t \<longrightarrow> Suc_n sc t = Suc_n s t \<and> Pred_n sc t = Pred_n s t"
    using e(2) by (simp add: f)
  from ct rec' com off' show ?thesis by blast
qed

text \<open>
  Claim C8 does not hold of the code for every call. The exit first makes
  the \<^verbatim>\<open>BestSuc\<close> links the working tour if \<^verbatim>\<open>Norm == 0\<close>, and then walks the
  \<^verbatim>\<open>BestSuc\<close> links from \<^verbatim>\<open>FirstNode\<close>. If these form a tour, the exit returns:
  in the state \<open>sc\<close> it leaves, every node \<open>t\<close> of that tour has
  \<^verbatim>\<open>t->Suc == t->BestSuc\<close> and \<^verbatim>\<open>t->BestSuc->Pred == t\<close>, the links of the other
  nodes and all other globals are as before, \<^verbatim>\<open>ResetCandidateSet\<close> is the last
  call, made on \<open>sc\<close> with \<^verbatim>\<open>Trial\<close> cut back to \<^verbatim>\<open>MaxTrials\<close>, and the value
  returned is \<^verbatim>\<open>BetterCost\<close>. But if no tour was recorded, so that the \<^verbatim>\<open>BestSuc\<close>
  link of \<^verbatim>\<open>FirstNode\<close> is null, and \<^verbatim>\<open>Norm\<close> is not 0, the exit writes through
  the null pointer: nothing is committed, \<^verbatim>\<open>ResetCandidateSet\<close> is not called
  and nothing is returned. The exit is what \<^verbatim>\<open>FindTour\<close> does after the trials
  and the removal of the backbone candidates.
\<close>

theorem FindTour_exit_commits_or_crashes:
  "(Norm (fst cfg) \<noteq> 0 \<and> is_tour (BestSuc (fst cfg)) (FirstNode (fst cfg)) \<longrightarrow>
      (\<exists>sc. FindTour_exit e cfg =
               Some (Inr (BetterCost (proc e ResetCandidateSet (if Trial sc > MaxTrials sc then sc\<lparr>Trial := MaxTrials sc\<rparr> else sc)),
                          (proc e ResetCandidateSet (if Trial sc > MaxTrials sc then sc\<lparr>Trial := MaxTrials sc\<rparr> else sc),
                           snd cfg @ [ResetCandidateSet])))
           \<and> sc = (fst cfg)\<lparr>Suc_n := Suc_n sc, Pred_n := Pred_n sc\<rparr>
           \<and> committed sc
           \<and> (\<forall>t. \<not> on_tour (BestSuc (fst cfg)) (FirstNode (fst cfg)) t \<longrightarrow>
                  Suc_n sc t = Suc_n (fst cfg) t \<and> Pred_n sc t = Pred_n (fst cfg) t)))
   \<and> (Norm (fst cfg) = 0 \<and> is_tour (Suc_n (fst cfg)) (FirstNode (fst cfg)) \<longrightarrow>
      (\<exists>sc. FindTour_exit e cfg =
               Some (Inr (BetterCost (proc e ResetCandidateSet (if Trial sc > MaxTrials sc then sc\<lparr>Trial := MaxTrials sc\<rparr> else sc)),
                          (proc e ResetCandidateSet (if Trial sc > MaxTrials sc then sc\<lparr>Trial := MaxTrials sc\<rparr> else sc),
                           snd cfg @ [ResetCandidateSet])))
           \<and> sc = (fst cfg)\<lparr>BestSuc := \<lambda>t. if on_tour (Suc_n (fst cfg)) (FirstNode (fst cfg)) t
                                             then Suc_n (fst cfg) t else BestSuc (fst cfg) t,
                             Suc_n := Suc_n sc, Pred_n := Pred_n sc\<rparr>
           \<and> committed sc
           \<and> (\<forall>t. \<not> on_tour (Suc_n (fst cfg)) (FirstNode (fst cfg)) t \<longrightarrow>
                  Suc_n sc t = Suc_n (fst cfg) t \<and> Pred_n sc t = Pred_n (fst cfg) t)))
   \<and> (Norm (fst cfg) \<noteq> 0 \<and> FirstNode (fst cfg) \<noteq> 0 \<and> BestSuc (fst cfg) (FirstNode (fst cfg)) = 0 \<longrightarrow>
        FindTour_exit e cfg = Some (Inl NullDeref))
   \<and> (FindTour_entry e cfg0 = Some (Inr (EntryTime, cfg1))
       \<and> trial_loop e EntryTime (upd (\<lambda>s. s\<lparr>Trial := 1\<rparr>) cfg1) = Some (Inr cfg2)
       \<and> backbone_cleanup cfg2 = Some (Inr cfg) \<longrightarrow>
        FindTour e cfg0 = FindTour_exit e cfg)"
proof (intro conjI impI)
  assume "Norm (fst cfg) \<noteq> 0 \<and> is_tour (BestSuc (fst cfg)) (FirstNode (fst cfg))"
  then have n: "Norm (fst cfg) \<noteq> 0" and t: "is_tour (BestSuc (fst cfg)) (FirstNode (fst cfg))" by simp_all
  from commit_tour_best[OF n t] obtain sc where ct: "commit_tour (fst cfg) = Some (Inr sc)"
    and rest: "sc = (fst cfg)\<lparr>Suc_n := Suc_n sc, Pred_n := Pred_n sc\<rparr>" "committed sc"
      "\<forall>t. \<not> on_tour (BestSuc (fst cfg)) (FirstNode (fst cfg)) t \<longrightarrow>
                  Suc_n sc t = Suc_n (fst cfg) t \<and> Pred_n sc t = Pred_n (fst cfg) t"
    by blast
  show "\<exists>sc. FindTour_exit e cfg =
               Some (Inr (BetterCost (proc e ResetCandidateSet (if Trial sc > MaxTrials sc then sc\<lparr>Trial := MaxTrials sc\<rparr> else sc)),
                          (proc e ResetCandidateSet (if Trial sc > MaxTrials sc then sc\<lparr>Trial := MaxTrials sc\<rparr> else sc),
                           snd cfg @ [ResetCandidateSet])))
           \<and> sc = (fst cfg)\<lparr>Suc_n := Suc_n sc, Pred_n := Pred_n sc\<rparr>
           \<and> committed sc
           \<and> (\<forall>t. \<not> on_tour (BestSuc (fst cfg)) (FirstNode (fst cfg)) t \<longrightarrow>
                  Suc_n sc t = Suc_n (fst cfg) t \<and> Pred_n sc t = Pred_n (fst cfg) t)"
    by (rule exI[of _ sc], intro conjI, rule FindTour_exit_result[OF ct], (fact rest)+)
next
  assume "Norm (fst cfg) = 0 \<and> is_tour (Suc_n (fst cfg)) (FirstNode (fst cfg))"
  then have n: "Norm (fst cfg) = 0" and t: "is_tour (Suc_n (fst cfg)) (FirstNode (fst cfg))" by simp_all
  from commit_tour_working[OF n t] obtain sc where ct: "commit_tour (fst cfg) = Some (Inr sc)"
    and rest: "sc = (fst cfg)\<lparr>BestSuc := \<lambda>t. if on_tour (Suc_n (fst cfg)) (FirstNode (fst cfg)) t
                                             then Suc_n (fst cfg) t else BestSuc (fst cfg) t,
                             Suc_n := Suc_n sc, Pred_n := Pred_n sc\<rparr>" "committed sc"
      "\<forall>t. \<not> on_tour (Suc_n (fst cfg)) (FirstNode (fst cfg)) t \<longrightarrow>
                  Suc_n sc t = Suc_n (fst cfg) t \<and> Pred_n sc t = Pred_n (fst cfg) t"
    by blast
  show "\<exists>sc. FindTour_exit e cfg =
               Some (Inr (BetterCost (proc e ResetCandidateSet (if Trial sc > MaxTrials sc then sc\<lparr>Trial := MaxTrials sc\<rparr> else sc)),
                          (proc e ResetCandidateSet (if Trial sc > MaxTrials sc then sc\<lparr>Trial := MaxTrials sc\<rparr> else sc),
                           snd cfg @ [ResetCandidateSet])))
           \<and> sc = (fst cfg)\<lparr>BestSuc := \<lambda>t. if on_tour (Suc_n (fst cfg)) (FirstNode (fst cfg)) t
                                             then Suc_n (fst cfg) t else BestSuc (fst cfg) t,
                             Suc_n := Suc_n sc, Pred_n := Pred_n sc\<rparr>
           \<and> committed sc
           \<and> (\<forall>t. \<not> on_tour (Suc_n (fst cfg)) (FirstNode (fst cfg)) t \<longrightarrow>
                  Suc_n sc t = Suc_n (fst cfg) t \<and> Pred_n sc t = Pred_n (fst cfg) t)"
    by (rule exI[of _ sc], intro conjI, rule FindTour_exit_result[OF ct], (fact rest)+)
next
  assume "Norm (fst cfg) \<noteq> 0 \<and> FirstNode (fst cfg) \<noteq> 0 \<and> BestSuc (fst cfg) (FirstNode (fst cfg)) = 0"
  then show "FindTour_exit e cfg = Some (Inl NullDeref)"
    by (simp add: FindTour_exit_def commit_tour_def commit_link_def ring_do.simps[of commit_link] ok_def)
next
  assume "FindTour_entry e cfg0 = Some (Inr (EntryTime, cfg1))
       \<and> trial_loop e EntryTime (upd (\<lambda>s. s\<lparr>Trial := 1\<rparr>) cfg1) = Some (Inr cfg2)
       \<and> backbone_cleanup cfg2 = Some (Inr cfg)"
  then show "FindTour e cfg0 = FindTour_exit e cfg"
    by (simp add: FindTour_def)
qed


lemma rev3_tour:
  "is_tour rev3 (Suc 0)" "on_tour rev3 (Suc 0) (Suc 0)" "on_tour rev3 (Suc 0) 2" "on_tour rev3 (Suc 0) 3"
proof -
  show "is_tour rev3 (Suc 0)"
    unfolding is_tour_def by (rule exI[of _ 2]) (simp add: rev3_def less_Suc_eq_le[symmetric] less_Suc_eq numeral_3_eq_3)
  show "on_tour rev3 (Suc 0) (Suc 0)" unfolding on_tour_def by (rule exI[of _ 0]) simp
  show "on_tour rev3 (Suc 0) 3" unfolding on_tour_def by (rule exI[of _ 1]) (simp add: rev3_def)
  show "on_tour rev3 (Suc 0) 2" unfolding on_tour_def by (rule exI[of _ 2]) (simp add: rev3_def numeral_2_eq_2)
qed

lemma ring3_tour:
  "is_tour ring3 (Suc 0)" "on_tour ring3 (Suc 0) (Suc 0)" "on_tour ring3 (Suc 0) 2" "on_tour ring3 (Suc 0) 3"
proof -
  show "is_tour ring3 (Suc 0)"
    unfolding is_tour_def by (rule exI[of _ 2]) (simp add: ring3_def less_Suc_eq_le[symmetric] less_Suc_eq numeral_3_eq_3)
  show "on_tour ring3 (Suc 0) (Suc 0)" unfolding on_tour_def by (rule exI[of _ 0]) simp
  show "on_tour ring3 (Suc 0) 2" unfolding on_tour_def by (rule exI[of _ 1]) (simp add: ring3_def)
  show "on_tour ring3 (Suc 0) 3" unfolding on_tour_def by (rule exI[of _ 2]) (simp add: ring3_def numeral_2_eq_2)
qed

lemmas turning_defs = turning_env_def turning_proc_def

text \<open>
  On the small instance. With \<^verbatim>\<open>MaxTrials = 0\<close> the call crashes at the exit.
  With two trials of costs 7 and 9, each starting from the reversed tour,
  the trials leave the working tour 1, 2, 3 and the recorded tour 1, 3, 2 of
  cost 7; the exit makes the working tour 1, 3, 2, cuts \<^verbatim>\<open>Trial\<close> back from 3
  to 2, calls \<^verbatim>\<open>ResetCandidateSet\<close> and returns 7. With \<^verbatim>\<open>Norm = 0\<close> the exit
  records the working tour 1, 2, 3 and restores its \<^verbatim>\<open>Pred\<close> links.
\<close>

theorem FindTour_exit_commits_or_crashes_witness:
  "FindTour stub_env (ex_state\<lparr>MaxTrials := 0\<rparr>, []) = Some (Inl NullDeref)
   \<and> (\<exists>EntryTime cfg1 cfg2 cfg3 sF.
         FindTour_entry turning_env (ex_state\<lparr>world := ([7, 9, 7], 0)\<rparr>, []) = Some (Inr (EntryTime, cfg1))
       \<and> trial_loop turning_env EntryTime (upd (\<lambda>s. s\<lparr>Trial := 1\<rparr>) cfg1) = Some (Inr cfg2)
       \<and> backbone_cleanup cfg2 = Some (Inr cfg3)
       \<and> Suc_n (fst cfg3) 1 = 2 \<and> Suc_n (fst cfg3) 2 = 3 \<and> Suc_n (fst cfg3) 3 = 1 \<and> Trial (fst cfg3) = 3
       \<and> FindTour turning_env (ex_state\<lparr>world := ([7, 9, 7], 0)\<rparr>, []) = Some (Inr (7, (sF, snd cfg3 @ [ResetCandidateSet])))
       \<and> BestSuc sF 1 = 3 \<and> BestSuc sF 3 = 2 \<and> BestSuc sF 2 = 1
       \<and> Suc_n sF 1 = 3 \<and> Suc_n sF 3 = 2 \<and> Suc_n sF 2 = 1
       \<and> Pred_n sF 3 = 1 \<and> Pred_n sF 2 = 3 \<and> Pred_n sF 1 = 2
       \<and> Trial sF = 2 \<and> BetterCost sF = 7)
   \<and> (\<exists>sF. FindTour_exit stub_env (ex_state\<lparr>Norm := 0, Pred_n := \<lambda>t. 0\<rparr>, []) = Some (Inr (0, (sF, [ResetCandidateSet])))
       \<and> BestSuc sF 1 = 2 \<and> BestSuc sF 2 = 3 \<and> BestSuc sF 3 = 1
       \<and> Suc_n sF 1 = 2 \<and> Suc_n sF 2 = 3 \<and> Suc_n sF 3 = 1
       \<and> Pred_n sF 2 = 1 \<and> Pred_n sF 3 = 2 \<and> Pred_n sF 1 = 3)"
proof (intro conjI)
  let ?a = "(ex_state\<lparr>MaxTrials := 0\<rparr>, [])"
  have "\<exists>EntryTime cfg1 cfg2 cfg3.
         FindTour_entry stub_env ?a = Some (Inr (EntryTime, cfg1))
       \<and> trial_loop stub_env EntryTime (upd (\<lambda>s. s\<lparr>Trial := 1\<rparr>) cfg1) = Some (Inr cfg2)
       \<and> backbone_cleanup cfg2 = Some (Inr cfg3)
       \<and> Norm (fst cfg3) \<noteq> 0 \<and> FirstNode (fst cfg3) \<noteq> 0 \<and> BestSuc (fst cfg3) (FirstNode (fst cfg3)) = 0"
    by (simp add: eval_defs stub_defs)
  then obtain EntryTime cfg1 cfg2 cfg3 where
    st: "FindTour_entry stub_env ?a = Some (Inr (EntryTime, cfg1))
       \<and> trial_loop stub_env EntryTime (upd (\<lambda>s. s\<lparr>Trial := 1\<rparr>) cfg1) = Some (Inr cfg2)
       \<and> backbone_cleanup cfg2 = Some (Inr cfg3)"
    and no: "Norm (fst cfg3) \<noteq> 0 \<and> FirstNode (fst cfg3) \<noteq> 0 \<and> BestSuc (fst cfg3) (FirstNode (fst cfg3)) = 0"
    by blast
  note inst = FindTour_exit_commits_or_crashes[of cfg3 stub_env ?a EntryTime cfg1 cfg2]
  from inst[THEN conjunct2, THEN conjunct2, THEN conjunct2, THEN mp, OF st]
    inst[THEN conjunct2, THEN conjunct2, THEN conjunct1, THEN mp, OF no]
  show "FindTour stub_env ?a = Some (Inl NullDeref)" by simp
next
  let ?b = "(ex_state\<lparr>world := ([7, 9, 7], 0)\<rparr>, [])"
  have "\<exists>EntryTime cfg1 cfg2 cfg3.
         FindTour_entry turning_env ?b = Some (Inr (EntryTime, cfg1))
       \<and> trial_loop turning_env EntryTime (upd (\<lambda>s. s\<lparr>Trial := 1\<rparr>) cfg1) = Some (Inr cfg2)
       \<and> backbone_cleanup cfg2 = Some (Inr cfg3)
       \<and> Norm (fst cfg3) \<noteq> 0 \<and> FirstNode (fst cfg3) = Suc 0 \<and> BestSuc (fst cfg3) = rev3
       \<and> Suc_n (fst cfg3) 1 = 2 \<and> Suc_n (fst cfg3) 2 = 3 \<and> Suc_n (fst cfg3) 3 = 1
       \<and> Trial (fst cfg3) = 3 \<and> MaxTrials (fst cfg3) = 2 \<and> BetterCost (fst cfg3) = 7"
    by (simp add: eval_defs stub_defs turning_defs rev3_def)
  then obtain EntryTime cfg1 cfg2 cfg3 where
    st: "FindTour_entry turning_env ?b = Some (Inr (EntryTime, cfg1))
       \<and> trial_loop turning_env EntryTime (upd (\<lambda>s. s\<lparr>Trial := 1\<rparr>) cfg1) = Some (Inr cfg2)
       \<and> backbone_cleanup cfg2 = Some (Inr cfg3)"
    and n: "Norm (fst cfg3) \<noteq> 0" and f: "FirstNode (fst cfg3) = Suc 0" and b: "BestSuc (fst cfg3) = rev3"
    and w: "Suc_n (fst cfg3) 1 = 2" "Suc_n (fst cfg3) 2 = 3" "Suc_n (fst cfg3) 3 = 1" "Trial (fst cfg3) = 3"
    and g: "Trial (fst cfg3) = 3" "MaxTrials (fst cfg3) = 2" "BetterCost (fst cfg3) = 7"
    by blast
  note inst = FindTour_exit_commits_or_crashes[of cfg3 turning_env ?b EntryTime cfg1 cfg2]
  have t: "Norm (fst cfg3) \<noteq> 0 \<and> is_tour (BestSuc (fst cfg3)) (FirstNode (fst cfg3))"
    using n by (simp add: b f rev3_tour)
  from inst[THEN conjunct1, THEN mp, OF t] obtain sc where
    ex: "FindTour_exit turning_env cfg3 =
               Some (Inr (BetterCost (proc turning_env ResetCandidateSet (if Trial sc > MaxTrials sc then sc\<lparr>Trial := MaxTrials sc\<rparr> else sc)),
                          (proc turning_env ResetCandidateSet (if Trial sc > MaxTrials sc then sc\<lparr>Trial := MaxTrials sc\<rparr> else sc),
                           snd cfg3 @ [ResetCandidateSet])))"
    and rec: "sc = (fst cfg3)\<lparr>Suc_n := Suc_n sc, Pred_n := Pred_n sc\<rparr>"
    and com: "committed sc"
    by (elim exE conjE) (rule that; assumption)
  have fs: "FirstNode sc = Suc 0" "BestSuc sc = rev3" "Trial sc = 3" "MaxTrials sc = 2" "BetterCost sc = 7"
    by (subst rec, simp add: f b g)+
  define sF where "sF = sc\<lparr>Trial := 2\<rparr>"
  from com have c: "Suc_n sc t = rev3 t \<and> Pred_n sc (rev3 t) = t" if "on_tour rev3 (Suc 0) t" for t
    using that unfolding committed_def fs by blast
  from c[OF rev3_tour(2)] c[OF rev3_tour(3)] c[OF rev3_tour(4)]
  have l: "Suc_n sc 1 = 3" "Suc_n sc 3 = 2" "Suc_n sc 2 = 1" "Pred_n sc 3 = 1" "Pred_n sc 2 = 3" "Pred_n sc 1 = 2"
    by (simp_all add: rev3_def)
  from ex have ex': "FindTour_exit turning_env cfg3 = Some (Inr (7, (sF, snd cfg3 @ [ResetCandidateSet])))"
    by (simp add: fs sF_def turning_defs stub_defs)
  from inst[THEN conjunct2, THEN conjunct2, THEN conjunct2, THEN mp, OF st] ex'
  have r: "FindTour turning_env ?b = Some (Inr (7, (sF, snd cfg3 @ [ResetCandidateSet])))" by simp
  have p: "BestSuc sF 1 = 3" "BestSuc sF 3 = 2" "BestSuc sF 2 = 1"
       "Suc_n sF 1 = 3" "Suc_n sF 3 = 2" "Suc_n sF 2 = 1"
       "Pred_n sF 3 = 1" "Pred_n sF 2 = 3" "Pred_n sF 1 = 2" "Trial sF = 2" "BetterCost sF = 7"
    using l fs by (simp_all add: sF_def rev3_def)
  show "\<exists>EntryTime cfg1 cfg2 cfg3 sF.
         FindTour_entry turning_env ?b = Some (Inr (EntryTime, cfg1))
       \<and> trial_loop turning_env EntryTime (upd (\<lambda>s. s\<lparr>Trial := 1\<rparr>) cfg1) = Some (Inr cfg2)
       \<and> backbone_cleanup cfg2 = Some (Inr cfg3)
       \<and> Suc_n (fst cfg3) 1 = 2 \<and> Suc_n (fst cfg3) 2 = 3 \<and> Suc_n (fst cfg3) 3 = 1 \<and> Trial (fst cfg3) = 3
       \<and> FindTour turning_env ?b = Some (Inr (7, (sF, snd cfg3 @ [ResetCandidateSet])))
       \<and> BestSuc sF 1 = 3 \<and> BestSuc sF 3 = 2 \<and> BestSuc sF 2 = 1
       \<and> Suc_n sF 1 = 3 \<and> Suc_n sF 3 = 2 \<and> Suc_n sF 2 = 1
       \<and> Pred_n sF 3 = 1 \<and> Pred_n sF 2 = 3 \<and> Pred_n sF 1 = 2
       \<and> Trial sF = 2 \<and> BetterCost sF = 7"
    apply (rule exI[of _ EntryTime], rule exI[of _ cfg1], rule exI[of _ cfg2], rule exI[of _ cfg3], rule exI[of _ sF])
    apply (intro conjI)
    apply (rule st[THEN conjunct1])
    apply (rule st[THEN conjunct2, THEN conjunct1])
    apply (rule st[THEN conjunct2, THEN conjunct2])
    apply (fact w)+
    apply (fact r)
    apply (fact p)+
    done
next
  let ?c = "(ex_state\<lparr>Norm := 0, Pred_n := \<lambda>t. 0\<rparr>, [] :: call list)"
  note inst = FindTour_exit_commits_or_crashes[of ?c stub_env ?c 0 ?c ?c]
  have t: "Norm (fst ?c) = 0 \<and> is_tour (Suc_n (fst ?c)) (FirstNode (fst ?c))"
    by (simp add: ex_state_def ring3_tour)
  from inst[THEN conjunct2, THEN conjunct1, THEN mp, OF t] obtain sc where
    ex: "FindTour_exit stub_env ?c =
               Some (Inr (BetterCost (proc stub_env ResetCandidateSet (if Trial sc > MaxTrials sc then sc\<lparr>Trial := MaxTrials sc\<rparr> else sc)),
                          (proc stub_env ResetCandidateSet (if Trial sc > MaxTrials sc then sc\<lparr>Trial := MaxTrials sc\<rparr> else sc),
                           snd ?c @ [ResetCandidateSet])))"
    and rec: "sc = (fst ?c)\<lparr>BestSuc := \<lambda>t. if on_tour (Suc_n (fst ?c)) (FirstNode (fst ?c)) t
                                             then Suc_n (fst ?c) t else BestSuc (fst ?c) t,
                             Suc_n := Suc_n sc, Pred_n := Pred_n sc\<rparr>"
    and com: "committed sc"
    by (elim exE conjE) (rule that; assumption)
  have fs: "FirstNode sc = Suc 0" "Trial sc = 0" "MaxTrials sc = 2" "BetterCost sc = 0"
    "BestSuc sc = (\<lambda>t. if on_tour ring3 (Suc 0) t then ring3 t else 0)"
    by (subst rec, simp add: ex_state_def cong: if_cong)+
  have bs: "BestSuc sc 1 = 2" "BestSuc sc 2 = 3" "BestSuc sc 3 = 1"
    unfolding fs using ring3_tour by (simp_all add: ring3_def)
  have ag: "BestSuc sc t = ring3 t" if "on_tour ring3 (Suc 0) t" for t using that by (simp add: fs)
  from tour_agree(2)[of ring3 "Suc 0" "BestSuc sc", OF ag]
  have ot: "on_tour (BestSuc sc) (FirstNode sc) = on_tour ring3 (Suc 0)" by (simp add: fs(1))
  from com have c: "Suc_n sc t = BestSuc sc t \<and> Pred_n sc (BestSuc sc t) = t" if "on_tour ring3 (Suc 0) t" for t
    using that unfolding committed_def ot by blast
  from c[OF ring3_tour(2)] c[OF ring3_tour(3)] c[OF ring3_tour(4)] bs
  have l: "Suc_n sc 1 = 2" "Suc_n sc 2 = 3" "Suc_n sc 3 = 1" "Pred_n sc 2 = 1" "Pred_n sc 3 = 2" "Pred_n sc 1 = 3"
    by simp_all
  from ex have ex': "FindTour_exit stub_env ?c = Some (Inr (0, (sc, [ResetCandidateSet])))"
    by (simp add: fs(1-4) stub_env_def stub_proc_def)
  show "\<exists>sF. FindTour_exit stub_env ?c = Some (Inr (0, (sF, [ResetCandidateSet])))
       \<and> BestSuc sF 1 = 2 \<and> BestSuc sF 2 = 3 \<and> BestSuc sF 3 = 1
       \<and> Suc_n sF 1 = 2 \<and> Suc_n sF 2 = 3 \<and> Suc_n sF 3 = 1
       \<and> Pred_n sF 2 = 1 \<and> Pred_n sF 3 = 2 \<and> Pred_n sF 1 = 3"
    apply (rule exI[of _ sc])
    apply (intro conjI)
    apply (fact ex')
    apply (fact bs)+
    apply (fact l)+
    done
qed

section \<open>A call that records no tour\<close>

lemma clear_ring_post:
  assumes "ring_do clear_links Suc_n FirstNode s (FirstNode s) = Some (Inr s2)"
  shows "FirstNode s2 = FirstNode s \<and> FirstNode s \<noteq> 0 \<and> BestSuc s2 (FirstNode s) = 0"
proof (rule ring_do_rule[OF assms, where
      I = "\<lambda>\<sigma> t. FirstNode \<sigma> = FirstNode s \<and> (t = FirstNode s \<or> (FirstNode s \<noteq> 0 \<and> BestSuc \<sigma> (FirstNode s) = 0))"])
  show "FirstNode s = FirstNode s \<and> (FirstNode s = FirstNode s \<or> (FirstNode s \<noteq> 0 \<and> BestSuc s (FirstNode s) = 0))"
    by simp
next
  fix \<sigma> t s1
  assume "FirstNode \<sigma> = FirstNode s \<and> (t = FirstNode s \<or> (FirstNode s \<noteq> 0 \<and> BestSuc \<sigma> (FirstNode s) = 0))"
    and "t \<noteq> 0" and "clear_links \<sigma> t = Inr s1"
  then have *: "FirstNode s1 = FirstNode s \<and> FirstNode s \<noteq> 0 \<and> BestSuc s1 (FirstNode s) = 0"
    by (auto simp: clear_links_def)
  from * show "FirstNode s1 = FirstNode s \<and> (Suc_n s1 t = FirstNode s \<or> (FirstNode s \<noteq> 0 \<and> BestSuc s1 (FirstNode s) = 0))"
    by simp
  from * show "FirstNode s1 = FirstNode s \<and> FirstNode s \<noteq> 0 \<and> BestSuc s1 (FirstNode s) = 0" .
qed

lemma entry_no_best:
  assumes entry: "FindTour_entry e cfg = Some (Inr (EntryTime, cfg1))"
    and frame: "keeps_links (proc e HashInitialize)" "keeps_links (proc e ChooseInitialTour)"
  shows "FirstNode (fst cfg1) \<noteq> 0 \<and> BestSuc (fst cfg1) (FirstNode (fst cfg1)) = 0"
proof -
  let ?s1 = "snd (clock e (fst cfg))"
  from entry obtain s2 s3 where
    ring: "ring_do clear_links Suc_n FirstNode ?s1 (FirstNode ?s1) = Some (Inr s2)"
    and ord: "init_OrdinalTourCost e s2 = Some (Inr s3)"
    and r: "cfg1 = (if MaxTrials s3 > 0
         then call_proc e HashInitialize (s3\<lparr>BetterCost := PLUS_INFINITY e\<rparr>, snd (snd (call_GetTime e cfg)))
         else call_proc e ChooseInitialTour (s3\<lparr>BetterCost := PLUS_INFINITY e, Trial := 1\<rparr>, snd (snd (call_GetTime e cfg))))"
    by (auto simp: FindTour_entry_def Let_def bind_res_Inr call_defs split: if_splits)
  from clear_ring_post[OF ring] have a: "FirstNode s2 \<noteq> 0" "BestSuc s2 (FirstNode s2) = 0" by simp_all
  from ord have "BestSuc s3 = BestSuc s2" "FirstNode s3 = FirstNode s2"
    by (auto simp: init_OrdinalTourCost_def split: if_splits)
  with a r frame show ?thesis
    by (simp add: keeps_links_def call_defs)
qed

lemma commit_tour_crash:
  assumes "FirstNode s \<noteq> 0" "BestSuc s (FirstNode s) = 0" "Norm s \<noteq> 0"
  shows "commit_tour s = Some (Inl NullDeref)"
  using assms by (simp add: commit_tour_def commit_link_def ring_do.simps[of commit_link])

lemma FindTour_exit_crash:
  assumes "FirstNode (fst cfg) \<noteq> 0" "BestSuc (fst cfg) (FirstNode (fst cfg)) = 0" "Norm (fst cfg) \<noteq> 0"
  shows "FindTour_exit e cfg = Some (Inl NullDeref)"
  using commit_tour_crash[OF assms] by (simp add: FindTour_exit_def)

text \<open>
  Claim C3 does not hold of the code. With \<^verbatim>\<open>MaxTrials <= 0\<close> no trial runs, so
  no tour is recorded and the \<^verbatim>\<open>BestSuc\<close> link of \<^verbatim>\<open>FirstNode\<close>, cleared at entry,
  is still null at exit. Unless \<^verbatim>\<open>Norm == 0\<close> the exit loop
  \<^verbatim>\<open>(t->Suc = t->BestSuc)->Pred = t\<close> then writes through the null pointer:
  the call does not return \<^verbatim>\<open>PLUS_INFINITY\<close>, it crashes. The hypotheses on the
  two procedures say that they record no tour.
\<close>

theorem FindTour_without_trials_crashes:
  assumes entry: "FindTour_entry e cfg = Some (Inr (EntryTime, cfg1))"
    and frame: "keeps_links (proc e HashInitialize)" "keeps_links (proc e ChooseInitialTour)"
    and none: "MaxTrials (fst cfg1) \<le> 0"
    and norm: "Norm (fst cfg1) \<noteq> 0"
  shows "FindTour e cfg = Some (Inl NullDeref)"
proof -
  let ?c = "upd (\<lambda>s. s\<lparr>Trial := 1\<rparr>) cfg1"
  from none have loop: "trial_loop e EntryTime ?c = Some (Inr ?c)"
    by (subst trial_loop.simps) (simp add: upd_def)
  from none have bb: "backbone_cleanup ?c = ok ?c"
    by (auto simp: backbone_cleanup_def upd_def Let_def)
  from entry_no_best[OF entry frame] norm have "FindTour_exit e ?c = Some (Inl NullDeref)"
    by (intro FindTour_exit_crash) (simp_all add: upd_def)
  with entry loop bb show ?thesis
    by (simp add: FindTour_def)
qed

text \<open>On the small instance with \<^verbatim>\<open>MaxTrials = 0\<close>.\<close>

theorem FindTour_without_trials_crashes_witness:
  "MaxTrials (ex_state\<lparr>MaxTrials := 0\<rparr>) = 0 \<and> Norm (ex_state\<lparr>MaxTrials := 0\<rparr>) = 4
   \<and> FindTour stub_env (ex_state\<lparr>MaxTrials := 0\<rparr>, []) = Some (Inl NullDeref)"
proof -
  have "\<exists>cfg1. FindTour_entry stub_env (ex_state\<lparr>MaxTrials := 0\<rparr>, []) = Some (Inr (0, cfg1))
          \<and> MaxTrials (fst cfg1) = 0 \<and> Norm (fst cfg1) = 4"
    by (simp add: FindTour_entry_def init_OrdinalTourCost_def ordinal_sum_def ordinal_term_def wrap_def clear_links_def call_defs stub_defs
        ring_do.simps Let_def upto.simps signed_divide_int_def ok_def crash_def bind_res_def)
  then obtain cfg1 where e: "FindTour_entry stub_env (ex_state\<lparr>MaxTrials := 0\<rparr>, []) = Some (Inr (0, cfg1))"
    and m: "MaxTrials (fst cfg1) \<le> 0" and n: "Norm (fst cfg1) \<noteq> 0" by auto
  have k: "keeps_links (proc stub_env HashInitialize)" "keeps_links (proc stub_env ChooseInitialTour)"
    by (simp_all add: keeps_links_def stub_defs)
  from FindTour_without_trials_crashes[OF e k m n] show ?thesis
    by (simp add: ex_state_def)
qed

text \<open>
  Claim C2 does not hold of the code either, by the same defect. When the
  time limit is reached at the top of the first trial, the loop is left
  before any tour is recorded; without backbone trials and unless
  \<^verbatim>\<open>Norm == 0\<close>, the exit loop dereferences the null \<^verbatim>\<open>BestSuc\<close> link of
  \<^verbatim>\<open>FirstNode\<close>. The timeout ends in a crash, not in a return.
\<close>

theorem FindTour_early_timeout_crashes:
  assumes entry: "FindTour_entry e cfg = Some (Inr (EntryTime, cfg1))"
    and frame: "keeps_links (proc e HashInitialize)" "keeps_links (proc e ChooseInitialTour)"
      "keeps_links (\<lambda>s. snd (clock e s))"
    and some: "0 < MaxTrials (fst cfg1)"
    and timeout: "fst (time_check e EntryTime (upd (\<lambda>s. s\<lparr>Trial := 1\<rparr>) cfg1))"
    and norm: "Norm (fst (snd (time_check e EntryTime (upd (\<lambda>s. s\<lparr>Trial := 1\<rparr>) cfg1)))) \<noteq> 0"
    and nobb: "BackboneTrials (fst (snd (time_check e EntryTime (upd (\<lambda>s. s\<lparr>Trial := 1\<rparr>) cfg1)))) \<le> 0"
  shows "FindTour e cfg = Some (Inl NullDeref)"
proof -
  let ?c = "upd (\<lambda>s. s\<lparr>Trial := 1\<rparr>) cfg1"
  let ?c2 = "snd (time_check e EntryTime ?c)"
  from timeout have body: "trial_body e EntryTime ?c = ok (True, ?c2)"
    by (simp add: trial_body_def)
  from some body have loop: "trial_loop e EntryTime ?c = Some (Inr ?c2)"
    by (subst trial_loop.simps) (simp add: upd_def ok_def)
  from nobb have bb: "backbone_cleanup ?c2 = ok ?c2"
    by (auto simp: backbone_cleanup_def Let_def)
  have "fst ?c2 = snd (clock e (fst ?c))"
    by (simp add: time_check_def call_defs Let_def)
  with frame(3) have "BestSuc (fst ?c2) = BestSuc (fst cfg1)" "FirstNode (fst ?c2) = FirstNode (fst cfg1)"
    by (simp_all add: keeps_links_def upd_def)
  with entry_no_best[OF entry frame(1,2)] norm have "FindTour_exit e ?c2 = Some (Inl NullDeref)"
    by (intro FindTour_exit_crash) simp_all
  with entry loop bb show ?thesis
    by (simp add: FindTour_def)
qed

text \<open>On the small instance with \<^verbatim>\<open>TimeLimit = 0\<close> and a clock that stands still.\<close>

theorem FindTour_early_timeout_crashes_witness:
  "TimeLimit (ex_state\<lparr>TimeLimit := 0\<rparr>) = 0 \<and> MaxTrials (ex_state\<lparr>TimeLimit := 0\<rparr>) = 2
   \<and> FindTour stub_env (ex_state\<lparr>TimeLimit := 0\<rparr>, []) = Some (Inl NullDeref)"
proof -
  have "\<exists>cfg1. FindTour_entry stub_env (ex_state\<lparr>TimeLimit := 0\<rparr>, []) = Some (Inr (0, cfg1))
          \<and> MaxTrials (fst cfg1) = 2 \<and> Norm (fst cfg1) = 4 \<and> TimeLimit (fst cfg1) = 0
          \<and> TraceLevel (fst cfg1) = 0 \<and> BackboneTrials (fst cfg1) = 0"
    by (simp add: FindTour_entry_def init_OrdinalTourCost_def ordinal_sum_def ordinal_term_def wrap_def clear_links_def call_defs stub_defs
        ring_do.simps Let_def upto.simps signed_divide_int_def ok_def crash_def bind_res_def)
  then obtain cfg1 where e: "FindTour_entry stub_env (ex_state\<lparr>TimeLimit := 0\<rparr>, []) = Some (Inr (0, cfg1))"
    and m: "0 < MaxTrials (fst cfg1)" and n: "Norm (fst cfg1) = 4" and t: "TimeLimit (fst cfg1) = 0"
    and l: "TraceLevel (fst cfg1) = 0" and b: "BackboneTrials (fst cfg1) = 0" by auto
  have k: "keeps_links (proc stub_env HashInitialize)" "keeps_links (proc stub_env ChooseInitialTour)"
     "keeps_links (\<lambda>s. snd (clock stub_env s))"
    by (simp_all add: keeps_links_def stub_defs)
  have tc: "time_check stub_env 0 (upd (\<lambda>s. s\<lparr>Trial := 1\<rparr>) cfg1) = (True, (fst cfg1\<lparr>Trial := 1\<rparr>, snd cfg1 @ [GetTime]))"
    using t l by (simp add: time_check_def call_defs stub_defs Let_def)
  from FindTour_early_timeout_crashes[OF e k m] tc n b show ?thesis
    by (simp add: ex_state_def)
qed

section \<open>The run driver\<close>

text \<open>Unfolding the whole of \<^verbatim>\<open>main\<close> on a concrete input.\<close>

lemmas main_defs = main_def read_input_def prepare_def after_ascent_def record_best_def
  solve_subproblems_def run_body_def run_search_def run_finish_def genetic_stage_def
  update_population_def update_BestCost_def update_Optimum_def report_run_def
  crossover_stage_def suc_to_input_def run_loop.simps GainType_of_def

lemma stub_preserves:
  "preserves stub_env BestCost" "preserves stub_env Optimum" "preserves stub_env Runs"
  "preserves stub_env Seed"
  by (simp_all add: preserves_def stub_defs split: list.splits)

text \<open>
  Claim C4. If no subproblems are asked for and \<^verbatim>\<open>Norm == 0\<close> after
  \<^verbatim>\<open>CreateCandidateSet\<close> and \<^verbatim>\<open>InitializeStatistics\<close>, then \<^verbatim>\<open>main\<close> returns and
  these are all the calls it makes, in this order: the lower bound, cast
  to \<^verbatim>\<open>GainType\<close>, goes to the statistics as the optimum, the better and the
  best tour are recorded, the best tour is written to both files, and the
  statistics are printed. \<^verbatim>\<open>FindTour\<close> is not entered. The value \<open>v\<close> of the
  cast is the lower bound \<open>L\<close> without its fractional part, provided that fits
  \<^verbatim>\<open>GainType\<close>. \<open>s1\<close> is the state after \<^verbatim>\<open>Optimum = BestCost = (GainType) LowerBound\<close>,
  and \<open>s2\<close> to \<open>s5\<close> are the states the calls leave, \<^verbatim>\<open>Runs = 0\<close> being
  assigned in \<open>s5\<close>. If the procedures called from here on leave \<^verbatim>\<open>BestCost\<close>,
  \<^verbatim>\<open>Optimum\<close> and \<^verbatim>\<open>Runs\<close> alone, both files get \<open>v\<close> as the cost, and at the
  end \<^verbatim>\<open>Optimum = BestCost = v\<close> and \<^verbatim>\<open>Runs = 0\<close>.
\<close>

theorem Norm_zero_skips_runs:
  assumes sub: "SubproblemSize (fst (snd (read_input e argv cfg0))) \<le> 0"
    and norm: "Norm (fst (prepare e (snd (read_input e argv cfg0)))) = 0"
  shows "\<exists>L v time s1 s2 s3 s4 s5 sF.
           L = LowerBound (fst (prepare e (snd (read_input e argv cfg0))))
         \<and> v = (if - (2 ^ 63) - 1 < L \<and> L < 2 ^ 63 then (if 0 \<le> L then \<lfloor>L\<rfloor> else \<lceil>L\<rceil>) else - (2 ^ 63))
         \<and> s1 = (fst (prepare e (snd (read_input e argv cfg0))))\<lparr>BestCost := v, Optimum := v\<rparr>
         \<and> time = fst (clock e s1) - fst (read_input e argv cfg0)
         \<and> s2 = proc e (UpdateStatistics v time) (snd (clock e s1))
         \<and> s3 = proc e RecordBestTour (proc e RecordBetterTour s2)
         \<and> s4 = proc e (WriteTour OutputTourFileName BestTour (BestCost s3)) s3
         \<and> s5 = proc e (WriteTour TourFileName BestTour (BestCost s4)) s4
         \<and> sF = proc e PrintStatistics (s5\<lparr>Runs := 0, Run := 1\<rparr>)
         \<and> main e argv cfg0 =
             Some (Inr (0, (sF, snd cfg0 @
               [GetTime, ReadParameters, ReadProblem, AllocateStructures, CreateCandidateSet,
                InitializeStatistics, GetTime, UpdateStatistics v time,
                RecordBetterTour, RecordBestTour,
                WriteTour OutputTourFileName BestTour (BestCost s3),
                WriteTour TourFileName BestTour (BestCost s4),
                PrintStatistics])))
         \<and> (preserves e BestCost \<longrightarrow> BestCost s3 = v \<and> BestCost s4 = v)
         \<and> (preserves e BestCost \<and> preserves e Optimum \<and> preserves e Runs \<longrightarrow>
               BestCost sF = v \<and> Optimum sF = v \<and> Runs sF = 0)"
proof -
  let ?cfg2 = "prepare e (snd (read_input e argv cfg0))"
  let ?cfg3 = "after_ascent e (fst (read_input e argv cfg0)) ?cfg2"
  have tr2: "snd ?cfg2 = snd cfg0 @ [GetTime, ReadParameters, ReadProblem, AllocateStructures,
               CreateCandidateSet, InitializeStatistics]"
    by (simp add: prepare_def read_input_def call_defs Let_def)
  have loop: "run_loop e (upd (\<lambda>s. s\<lparr>Run := 1\<rparr>) ?cfg3) = Some (Inr (upd (\<lambda>s. s\<lparr>Run := 1\<rparr>) ?cfg3))"
    using norm by (subst run_loop.simps) (simp add: after_ascent_def upd_def Let_def)
  from sub loop have m: "main e argv cfg0 = ok (0, call_proc e PrintStatistics (upd (\<lambda>s. s\<lparr>Run := 1\<rparr>) ?cfg3))"
    by (simp add: main_def Let_def)
  show ?thesis
    unfolding m using norm tr2
    by (simp add: after_ascent_def record_best_def call_defs Let_def ok_def preserves_def GainType_of_def)
qed

text \<open>
  On the small instance with \<^verbatim>\<open>Norm = 0\<close> and the lower bound 39.5: the value
  recorded is 39.
\<close>

theorem Norm_zero_skips_runs_witness:
  "main stub_env [] (ex_state\<lparr>Norm := 0, LowerBound := 79 / 2\<rparr>, []) =
     Some (Inr (0, (ex_state\<lparr>Norm := 0, LowerBound := 79 / 2, MaxMatrixDimension := 10000,
                             BestCost := 39, Optimum := 39, BestSuc := ring3, Runs := 0\<rparr>,
               [GetTime, ReadParameters, ReadProblem, AllocateStructures, CreateCandidateSet,
                InitializeStatistics, GetTime, UpdateStatistics 39 0,
                RecordBetterTour, RecordBestTour,
                WriteTour OutputTourFileName BestTour 39, WriteTour TourFileName BestTour 39,
                PrintStatistics])))"
proof -
  let ?c = "(ex_state\<lparr>Norm := 0, LowerBound := 79 / 2\<rparr>, [])"
  have cfg2: "fst (prepare stub_env (snd (read_input stub_env [] ?c))) = ex_state\<lparr>Norm := 0, LowerBound := 79 / 2, MaxMatrixDimension := 10000\<rparr>"
    by (simp add: prepare_def read_input_def call_defs stub_defs Let_def)
  have a: "SubproblemSize (fst (snd (read_input stub_env [] ?c))) \<le> 0"
    by (simp add: read_input_def call_defs stub_defs Let_def)
  have b: "Norm (fst (prepare stub_env (snd (read_input stub_env [] ?c)))) = 0"
    unfolding cfg2 by simp
  have t: "fst (read_input stub_env [] ?c) = 0"
    by (simp add: read_input_def call_defs stub_defs Let_def)
  have v: "(if - (2 ^ 63) - 1 < (79 / 2 :: real) \<and> (79 / 2 :: real) < 2 ^ 63
            then (if 0 \<le> (79 / 2 :: real) then \<lfloor>79 / 2 :: real\<rfloor> else \<lceil>79 / 2 :: real\<rceil>) else - (2 ^ 63)) = 39"
    by simp
  from Norm_zero_skips_runs[OF a b] obtain L v time s1 s2 s3 s4 s5 sF where
    L: "L = LowerBound (fst (prepare stub_env (snd (read_input stub_env [] ?c))))"
    and v: "v = (if - (2 ^ 63) - 1 < L \<and> L < 2 ^ 63 then (if 0 \<le> L then \<lfloor>L\<rfloor> else \<lceil>L\<rceil>) else - (2 ^ 63))"
    and s: "s1 = (fst (prepare stub_env (snd (read_input stub_env [] ?c))))\<lparr>BestCost := v, Optimum := v\<rparr>"
       "time = fst (clock stub_env s1) - fst (read_input stub_env [] ?c)"
       "s2 = proc stub_env (UpdateStatistics v time) (snd (clock stub_env s1))"
       "s3 = proc stub_env RecordBestTour (proc stub_env RecordBetterTour s2)"
       "s4 = proc stub_env (WriteTour OutputTourFileName BestTour (BestCost s3)) s3"
       "s5 = proc stub_env (WriteTour TourFileName BestTour (BestCost s4)) s4"
       "sF = proc stub_env PrintStatistics (s5\<lparr>Runs := 0, Run := 1\<rparr>)"
    and m: "main stub_env [] ?c =
             Some (Inr (0, (sF, snd ?c @
               [GetTime, ReadParameters, ReadProblem, AllocateStructures, CreateCandidateSet,
                InitializeStatistics, GetTime, UpdateStatistics v time,
                RecordBetterTour, RecordBestTour,
                WriteTour OutputTourFileName BestTour (BestCost s3),
                WriteTour TourFileName BestTour (BestCost s4),
                PrintStatistics])))"
    by blast
  from L have L': "L = 79 / 2" unfolding cfg2 by simp
  from v have v': "v = 39" unfolding L' by simp
  show ?thesis
    unfolding m unfolding s v' cfg2 t by (simp add: stub_defs)
qed

text \<open>
  Claim C5, as the code has it. \<open>run_search\<close> is the part of a run up to its
  report; it yields the cost of the run and \<^verbatim>\<open>OldOptimum\<close>. If then
  \<^verbatim>\<open>StopAtOptimum\<close> is set, the cost equals \<^verbatim>\<open>OldOptimum\<close> and
  \<^verbatim>\<open>MaxPopulationSize >= 1\<close>, the run loop ends at once, with \<^verbatim>\<open>Runs\<close> set to
  \<^verbatim>\<open>Run\<close>: no further run is made. If one of the three conditions fails, the
  run does not leave the loop: it goes on to the crossover and the reseeding.
\<close>

theorem stop_at_optimum:
  "(Run (fst cfg) \<le> Runs (fst cfg) \<and> run_search e cfg = Some (Inr (Cost, OldOptimum, cfg1))
      \<and> StopAtOptimum (fst cfg1) \<noteq> 0 \<and> Cost = OldOptimum \<and> 1 \<le> MaxPopulationSize (fst cfg1)
    \<longrightarrow> run_loop e cfg = Some (Inr (upd (\<lambda>s. s\<lparr>Runs := Run s\<rparr>) cfg1)))
   \<and> (run_search e cfg = Some (Inr (Cost, OldOptimum, cfg1))
      \<and> \<not> (StopAtOptimum (fst cfg1) \<noteq> 0 \<and> Cost = OldOptimum \<and> 1 \<le> MaxPopulationSize (fst cfg1))
    \<longrightarrow> run_body e cfg =
          bind_res (crossover_stage e cfg1)
            (\<lambda>cfg2. ok (False, call_proc e (SRandom (Seed (fst cfg2) + 1)) (upd (\<lambda>s. s\<lparr>Seed := Seed s + 1\<rparr>) cfg2))))"
proof (intro conjI impI)
  assume a: "Run (fst cfg) \<le> Runs (fst cfg) \<and> run_search e cfg = Some (Inr (Cost, OldOptimum, cfg1))
      \<and> StopAtOptimum (fst cfg1) \<noteq> 0 \<and> Cost = OldOptimum \<and> 1 \<le> MaxPopulationSize (fst cfg1)"
  then have "run_body e cfg = ok (True, upd (\<lambda>s. s\<lparr>Runs := Run s\<rparr>) cfg1)"
    by (simp add: run_body_def run_finish_def)
  with a show "run_loop e cfg = Some (Inr (upd (\<lambda>s. s\<lparr>Runs := Run s\<rparr>) cfg1))"
    by (subst run_loop.simps) (simp add: ok_def)
next
  assume "run_search e cfg = Some (Inr (Cost, OldOptimum, cfg1))
      \<and> \<not> (StopAtOptimum (fst cfg1) \<noteq> 0 \<and> Cost = OldOptimum \<and> 1 \<le> MaxPopulationSize (fst cfg1))"
  then show "run_body e cfg =
          bind_res (crossover_stage e cfg1)
            (\<lambda>cfg2. ok (False, call_proc e (SRandom (Seed (fst cfg2) + 1)) (upd (\<lambda>s. s\<lparr>Seed := Seed s + 1\<rparr>) cfg2)))"
    by (auto simp: run_body_def run_finish_def upd_def Let_def)
qed

text \<open>
  On the small instance with \<^verbatim>\<open>MaxPopulationSize = 1\<close>: the first run costs 5,
  the optimum, and is the only one of the two runs allowed.
\<close>

theorem stop_at_optimum_witness:
  "map_option (map_sum id (\<lambda>c. (Runs (fst c), filter is_run_event (snd c))))
     (run_loop stub_env (ex_state\<lparr>MaxPopulationSize := 1, BestCost := 1000000\<rparr>, []))
   = Some (Inr (1, [Enter_FindTour, UpdateStatistics 5 0]))"
proof -
  let ?c = "(ex_state\<lparr>MaxPopulationSize := 1, BestCost := 1000000\<rparr>, [])"
  have "\<exists>cfg1. run_search stub_env ?c = Some (Inr (5, 5, cfg1))
          \<and> StopAtOptimum (fst cfg1) = 1 \<and> MaxPopulationSize (fst cfg1) = 1 \<and> Run (fst cfg1) = 1
          \<and> filter is_run_event (snd cfg1) = [Enter_FindTour, UpdateStatistics 5 0]"
    by (simp add: eval_defs main_defs stub_defs)
  then obtain cfg1 where r: "run_search stub_env ?c = Some (Inr (5, 5, cfg1))"
    and p: "StopAtOptimum (fst cfg1) = 1" "MaxPopulationSize (fst cfg1) = 1" "Run (fst cfg1) = 1"
      "filter is_run_event (snd cfg1) = [Enter_FindTour, UpdateStatistics 5 0]"
    by blast
  have "Run (fst ?c) \<le> Runs (fst ?c)" by (simp add: ex_state_def)
  with stop_at_optimum[of ?c stub_env 5 5 cfg1] r p
  have "run_loop stub_env ?c = Some (Inr (upd (\<lambda>s. s\<lparr>Runs := Run s\<rparr>) cfg1))"
    by simp
  with p show ?thesis by (simp add: upd_def)
qed

text \<open>
  The claim as the specification words it fails: with
  \<^verbatim>\<open>MaxPopulationSize = 0\<close>, \<^verbatim>\<open>StopAtOptimum\<close> set and \<^verbatim>\<open>Optimum = 5\<close>, the first
  run costs 5 and a second run is made all the same.
\<close>

theorem stop_at_optimum_counterexample:
  "StopAtOptimum (ex_state\<lparr>world := ([7, 6, 5, 9, 8, 8, 8], 0)\<rparr>) = 1
   \<and> Optimum (ex_state\<lparr>world := ([7, 6, 5, 9, 8, 8, 8], 0)\<rparr>) = 5
   \<and> MaxPopulationSize (ex_state\<lparr>world := ([7, 6, 5, 9, 8, 8, 8], 0)\<rparr>) = 0
   \<and> map_option (map_sum id (\<lambda>r. filter is_run_event (snd (snd r))))
        (main stub_env [] (ex_state\<lparr>world := ([7, 6, 5, 9, 8, 8, 8], 0)\<rparr>, []))
      = Some (Inr [Enter_FindTour, UpdateStatistics 5 0, Enter_FindTour, UpdateStatistics 8 0])"
  by (simp add: eval_defs main_defs stub_defs)

section \<open>Quantities the drivers leave alone\<close>

text \<open>
  A quantity that the absent procedures preserve and that is out of reach of
  the drivers' own assignments has the same value after every stage of
  \<^verbatim>\<open>FindTour\<close> and of a run that returns.
\<close>

lemma preservesD:
  assumes "preserves e g"
  shows "\<not> setup_call c \<Longrightarrow> g (proc e c s) = g s"
    "\<not> setup_call c \<Longrightarrow> g (snd (func e c s)) = g s" "g (snd (clock e s)) = g s"
  using assms by (simp_all add: preserves_def)

lemma out_of_reachD:
  assumes "out_of_reach g"
  shows "g (s\<lparr>FirstNode := x1\<rparr>) = g s" "g (s\<lparr>Suc_n := x2\<rparr>) = g s"
    "g (s\<lparr>Pred_n := x3\<rparr>) = g s" "g (s\<lparr>BestSuc := x4\<rparr>) = g s"
    "g (s\<lparr>NextBestSuc := x5\<rparr>) = g s" "g (s\<lparr>OldPred := x6\<rparr>) = g s"
    "g (s\<lparr>OldSuc := x7\<rparr>) = g s" "g (s\<lparr>Next_n := x8\<rparr>) = g s"
    "g (s\<lparr>InputSuc := x9\<rparr>) = g s" "g (s\<lparr>InitialSuc := x10\<rparr>) = g s"
    "g (s\<lparr>CandidateSet := x11\<rparr>) = g s" "g (s\<lparr>BackboneCandidateSet := x12\<rparr>) = g s"
    "g (s\<lparr>Run := x13\<rparr>) = g s" "g (s\<lparr>Runs := x14\<rparr>) = g s"
    "g (s\<lparr>Trial := x15\<rparr>) = g s" "g (s\<lparr>BetterCost := x16\<rparr>) = g s"
    "g (s\<lparr>BestCost := x17\<rparr>) = g s" "g (s\<lparr>OrdinalTourCost := x18\<rparr>) = g s"
  using assms unfolding out_of_reach_def by simp_all


lemma ring_do_frame:
  assumes run: "ring_do body nxt first s t = Some (Inr s')"
    and body: "\<And>s t s1. body s t = Inr s1 \<Longrightarrow> G s1 = G s"
  shows "G s' = G s"
  by (rule ring_do_rule[OF run, where I = "\<lambda>\<sigma> t. G \<sigma> = G s"]) (simp_all add: body)

text \<open>Proof rules for the trial loop and the run loop, for a reflexive and transitive relation.\<close>

lemma trial_loop_rule:
  assumes run: "trial_loop e E cfg = Some (Inr cfg')"
    and refl: "\<And>c. R c c"
    and trans: "\<And>a b c. R a b \<Longrightarrow> R b c \<Longrightarrow> R a c"
    and body: "\<And>c brk c1. trial_body e E c = Some (Inr (brk, c1)) \<Longrightarrow> R c c1"
    and incr: "\<And>c. R c (upd (\<lambda>s. s\<lparr>Trial := Trial s + 1\<rparr>) c)"
  shows "R cfg cfg'"
proof -
  define P where "P = (\<lambda>e' E' c (y :: error + 'a config). e' = e \<longrightarrow> E' = E \<longrightarrow> (\<forall>c'. y = Inr c' \<longrightarrow> R c c'))"
  have "P e E cfg (Inr cfg')"
  proof (rule trial_loop.raw_induct[where P = P, OF _ run])
    fix tl e' E' c y
    assume IH: "\<And>e' E' c y. tl e' E' c = Some y \<Longrightarrow> P e' E' c y"
      and unf: "(if Trial (fst c) \<le> MaxTrials (fst c) then
                  (case trial_body e' E' c of None \<Rightarrow> None | Some (Inl err) \<Rightarrow> Some (Inl err)
                   | Some (Inr (brk, cfg')) \<Rightarrow>
                       if brk then Some (Inr cfg')
                       else tl e' E' (upd (\<lambda>s. s\<lparr>Trial := Trial s + 1\<rparr>) cfg'))
                else Some (Inr c)) = Some y"
    show "P e' E' c y"
      unfolding P_def
    proof (intro impI allI)
      fix c' assume eqs: "e' = e" "E' = E" and y: "y = Inr c'"
      show "R c c'"
      proof (cases "Trial (fst c) \<le> MaxTrials (fst c)")
        case False
        with unf y have "c' = c" by simp
        with refl show ?thesis by simp
      next
        case True
        with unf y eqs obtain brk c1 where b: "trial_body e E c = Some (Inr (brk, c1))"
          by (auto split: option.splits sum.splits)
        show ?thesis
        proof (cases brk)
          case True
          with unf y eqs b \<open>Trial (fst c) \<le> MaxTrials (fst c)\<close> have "c' = c1" by simp
          with body[OF b] show ?thesis by simp
        next
          case False
          with unf y eqs b \<open>Trial (fst c) \<le> MaxTrials (fst c)\<close>
          have "tl e E (upd (\<lambda>s. s\<lparr>Trial := Trial s + 1\<rparr>) c1) = Some (Inr c')" by simp
          from IH[OF this] have "R (upd (\<lambda>s. s\<lparr>Trial := Trial s + 1\<rparr>) c1) c'"
            by (cases c') (simp add: P_def)
          with body[OF b] incr[of c1] show ?thesis by (blast intro: trans)
        qed
      qed
    qed
  qed
  then show ?thesis by (cases cfg') (simp add: P_def)
qed

lemma run_loop_rule:
  assumes run: "run_loop e cfg = Some (Inr cfg')"
    and refl: "\<And>c. R c c"
    and trans: "\<And>a b c. R a b \<Longrightarrow> R b c \<Longrightarrow> R a c"
    and body: "\<And>c brk c1. run_body e c = Some (Inr (brk, c1)) \<Longrightarrow> R c c1"
    and incr: "\<And>c. R c (upd (\<lambda>s. s\<lparr>Run := Run s + 1\<rparr>) c)"
  shows "R cfg cfg'"
proof -
  define P where "P = (\<lambda>e' c (y :: error + 'a config). e' = e \<longrightarrow> (\<forall>c'. y = Inr c' \<longrightarrow> R c c'))"
  have "P e cfg (Inr cfg')"
  proof (rule run_loop.raw_induct[where P = P, OF _ run])
    fix rl e' c y
    assume IH: "\<And>e' c y. rl e' c = Some y \<Longrightarrow> P e' c y"
      and unf: "(if Run (fst c) \<le> Runs (fst c) then
                  (case run_body e' c of None \<Rightarrow> None | Some (Inl err) \<Rightarrow> Some (Inl err)
                   | Some (Inr (brk, cfg')) \<Rightarrow>
                       if brk then Some (Inr cfg')
                       else rl e' (upd (\<lambda>s. s\<lparr>Run := Run s + 1\<rparr>) cfg'))
                else Some (Inr c)) = Some y"
    show "P e' c y"
      unfolding P_def
    proof (intro impI allI)
      fix c' assume eqs: "e' = e" and y: "y = Inr c'"
      show "R c c'"
      proof (cases "Run (fst c) \<le> Runs (fst c)")
        case False
        with unf y have "c' = c" by simp
        with refl show ?thesis by simp
      next
        case True
        with unf y eqs obtain brk c1 where b: "run_body e c = Some (Inr (brk, c1))"
          by (auto split: option.splits sum.splits)
        show ?thesis
        proof (cases brk)
          case True
          with unf y eqs b \<open>Run (fst c) \<le> Runs (fst c)\<close> have "c' = c1" by simp
          with body[OF b] show ?thesis by simp
        next
          case False
          with unf y eqs b \<open>Run (fst c) \<le> Runs (fst c)\<close>
          have "rl e (upd (\<lambda>s. s\<lparr>Run := Run s + 1\<rparr>) c1) = Some (Inr c')" by simp
          from IH[OF this] have "R (upd (\<lambda>s. s\<lparr>Run := Run s + 1\<rparr>) c1) c'"
            by (cases c') (simp add: P_def)
          with body[OF b] incr[of c1] show ?thesis by (blast intro: trans)
        qed
      qed
    qed
  qed
  then show ?thesis by (cases cfg') (simp add: P_def)
qed


lemma advance_FirstNode_frame:
  assumes "out_of_reach g" "advance_FirstNode n s = Inr s'"
  shows "g s' = g s"
  using assms(2)
  by (induction n arbitrary: s) (auto simp: out_of_reachD[OF assms(1)] split: if_splits)

lemma FindTour_entry_frame:
  assumes P: "preserves e g" and O: "out_of_reach g"
    and r: "FindTour_entry e cfg = Some (Inr (E, cfg1))"
  shows "g (fst cfg1) = g (fst cfg)"
proof -
  let ?s1 = "snd (clock e (fst cfg))"
  from r obtain s2 s3 where
    ring: "ring_do clear_links Suc_n FirstNode ?s1 (FirstNode ?s1) = Some (Inr s2)"
    and ord: "init_OrdinalTourCost e s2 = Some (Inr s3)"
    and c: "cfg1 = (if MaxTrials s3 > 0
         then call_proc e HashInitialize (s3\<lparr>BetterCost := PLUS_INFINITY e\<rparr>, snd (snd (call_GetTime e cfg)))
         else call_proc e ChooseInitialTour (s3\<lparr>BetterCost := PLUS_INFINITY e, Trial := 1\<rparr>, snd (snd (call_GetTime e cfg))))"
    by (auto simp: FindTour_entry_def Let_def bind_res_Inr call_defs split: if_splits)
  have "g s2 = g ?s1"
    by (rule ring_do_frame[OF ring]) (auto simp: clear_links_def out_of_reachD[OF O])
  moreover from ord have "g s3 = g s2"
    by (auto simp: init_OrdinalTourCost_def out_of_reachD[OF O] split: if_splits)
  ultimately show ?thesis
    unfolding c by (simp add: call_defs preservesD[OF P] out_of_reachD[OF O])
qed

lemma time_check_frame:
  assumes P: "preserves e g"
  shows "g (fst (snd (time_check e E cfg))) = g (fst cfg)"
  by (simp add: time_check_def call_defs Let_def preservesD[OF P])

lemma choose_FirstNode_frame:
  assumes P: "preserves e g" and O: "out_of_reach g"
    and r: "choose_FirstNode e cfg = Some (Inr cfg1)"
  shows "g (fst cfg1) = g (fst cfg)"
  using r advance_FirstNode_frame[OF O]
  by (auto simp: choose_FirstNode_def call_defs Let_def preservesD[OF P] out_of_reachD[OF O]
      split: if_splits sum.splits)

lemma merge_with_best_frame:
  assumes P: "preserves e g" and O: "out_of_reach g"
    and r: "merge_with_best e Cost cfg = Some (Inr (Cost', cfg1))"
  shows "g (fst cfg1) = g (fst cfg)"
proof (cases "FirstNode (fst cfg) \<noteq> 0 \<and> BestSuc (fst cfg) (FirstNode (fst cfg)) \<noteq> 0")
  case True
  with r obtain s' where ring: "ring_do best_to_Next Next_n FirstNode (fst cfg) (FirstNode (fst cfg)) = Some (Inr s')"
    and c: "cfg1 = snd (call_func e MergeWithTour (s', snd cfg))"
    by (auto simp: merge_with_best_def Let_def bind_res_Inr)
  have "g s' = g (fst cfg)"
    by (rule ring_do_frame[OF ring]) (auto simp: best_to_Next_def out_of_reachD[OF O])
  then show ?thesis unfolding c by (simp add: call_defs preservesD[OF P])
next
  case False
  with r show ?thesis by (auto simp: merge_with_best_def Let_def split: if_splits)
qed

lemma merge_with_ordinal_frame:
  assumes P: "preserves e g" and O: "out_of_reach g"
  shows "g (fst (snd (merge_with_ordinal e Cost cfg))) = g (fst cfg)"
  by (simp add: merge_with_ordinal_def ordinal_Next_def call_defs Let_def preservesD[OF P] out_of_reachD[OF O])

lemma trial_search_frame:
  assumes P: "preserves e g" and O: "out_of_reach g"
    and r: "trial_search e cfg = Some (Inr (Cost, cfg1))"
  shows "g (fst cfg1) = g (fst cfg)"
proof -
  from r obtain c1 Cost' c4 where a: "choose_FirstNode e cfg = Some (Inr c1)"
    and b: "merge_with_best e (fst (call_func e LinKernighan (call_proc e ChooseInitialTour c1)))
              (snd (call_func e LinKernighan (call_proc e ChooseInitialTour c1))) = Some (Inr (Cost', c4))"
    and c: "cfg1 = snd (merge_with_ordinal e Cost' c4)"
    by (auto simp: trial_search_def bind_res_Inr Let_def)
  from merge_with_best_frame[OF P O b] choose_FirstNode_frame[OF P O a]
  have "g (fst c4) = g (fst cfg)" by (simp add: call_defs preservesD[OF P])
  then show ?thesis unfolding c by (simp add: merge_with_ordinal_frame[OF P O])
qed

lemma improve_stage_frame:
  assumes P: "preserves e g" and O: "out_of_reach g"
  shows "g (fst (snd (improve_stage e Cost cfg))) = g (fst cfg)"
  by (simp add: improve_stage_def record_improvement_def print_improvement_def call_defs Let_def
      preservesD[OF P] out_of_reachD[OF O])

lemma SwapCandidateSets_frame:
  assumes O: "out_of_reach g" and r: "SwapCandidateSets cfg = Some (Inr cfg1)"
  shows "g (fst cfg1) = g (fst cfg)"
proof -
  from r have ring: "ring_do swap_sets (\<lambda>c. Suc_n (fst c)) (\<lambda>c. FirstNode (fst c)) (printff SwapNotice cfg)
      (FirstNode (fst (printff SwapNotice cfg))) = Some (Inr cfg1)"
    by (simp add: SwapCandidateSets_def Let_def)
  have "g (fst cfg1) = g (fst (printff SwapNotice cfg))"
    by (rule ring_do_frame[OF ring, where G = "\<lambda>c. g (fst c)"])
       (auto simp: swap_sets_def upd_def out_of_reachD[OF O])
  then show ?thesis by (simp add: printff_def)
qed

lemma backbone_stage_frame:
  assumes P: "preserves e g" and O: "out_of_reach g"
    and r: "backbone_stage e cfg = Some (Inr cfg1)"
  shows "g (fst cfg1) = g (fst cfg)"
proof (cases "Trial (fst cfg) \<le> BackboneTrials (fst cfg) \<and> BackboneTrials (fst cfg) < MaxTrials (fst cfg)")
  case False
  with r show ?thesis by (auto simp: backbone_stage_def)
next
  case True
  with r obtain c1 where a: "SwapCandidateSets cfg = Some (Inr c1)"
    and b: "(let cfg2 = call_proc e AdjustCandidateSet c1 in
                  if Trial (fst cfg2) = BackboneTrials (fst cfg2) then
                    (if TraceLevel (fst cfg2) \<ge> 1
                     then ok (call_proc e CandidateReport (printff BackboneCandidates cfg2))
                     else ok cfg2)
                  else SwapCandidateSets cfg2) = Some (Inr cfg1)"
    by (auto simp: backbone_stage_def bind_res_Inr)
  have "g (fst cfg1) = g (fst (call_proc e AdjustCandidateSet c1))"
    using b SwapCandidateSets_frame[OF O, of "call_proc e AdjustCandidateSet c1" cfg1]
    by (auto simp: Let_def call_defs preservesD[OF P] split: if_splits)
  with SwapCandidateSets_frame[OF O a] show ?thesis
    by (simp add: call_defs preservesD[OF P])
qed

lemma trial_body_frame:
  assumes P: "preserves e g" and O: "out_of_reach g"
    and r: "trial_body e E cfg = Some (Inr (brk, cfg1))"
  shows "g (fst cfg1) = g (fst cfg)"
proof (cases "fst (time_check e E cfg)")
  case True
  with r show ?thesis by (auto simp: trial_body_def time_check_frame[OF P])
next
  case False
  with r obtain Cost c1 where a: "trial_search e (snd (time_check e E cfg)) = Some (Inr (Cost, c1))"
    and b: "(if fst (improve_stage e Cost c1) then ok (True, snd (improve_stage e Cost c1))
                else bind_res (backbone_stage e (snd (improve_stage e Cost c1)))
                       (\<lambda>cfg2. ok (False, cfg2))) = Some (Inr (brk, cfg1))"
    by (auto simp: trial_body_def bind_res_Inr)
  from b have "g (fst cfg1) = g (fst (snd (improve_stage e Cost c1)))"
    using backbone_stage_frame[OF P O, of "snd (improve_stage e Cost c1)" cfg1]
    by (auto simp: bind_res_Inr split: if_splits)
  with trial_search_frame[OF P O a] show ?thesis
    by (simp add: improve_stage_frame[OF P O] time_check_frame[OF P])
qed

lemma trial_loop_frame:
  assumes P: "preserves e g" and O: "out_of_reach g"
    and r: "trial_loop e E cfg = Some (Inr cfg1)"
  shows "g (fst cfg1) = g (fst cfg)"
  by (rule trial_loop_rule[OF r, where R = "\<lambda>c c'. g (fst c') = g (fst c)"])
     (auto simp: trial_body_frame[OF P O] upd_def out_of_reachD[OF O])

lemma backbone_cleanup_frame:
  assumes O: "out_of_reach g" and r: "backbone_cleanup cfg = Some (Inr cfg1)"
  shows "g (fst cfg1) = g (fst cfg)"
proof (cases "BackboneTrials (fst cfg) > 0 \<and> BackboneTrials (fst cfg) < MaxTrials (fst cfg)")
  case False
  with r show ?thesis by (auto simp: backbone_cleanup_def Let_def)
next
  case True
  with r obtain c1 where a: "(if Trial (fst cfg) > BackboneTrials (fst cfg) \<or>
                     (Trial (fst cfg) = BackboneTrials (fst cfg) \<and> (StopAtOptimum (fst cfg) = 0 \<or> BetterCost (fst cfg) \<noteq> Optimum (fst cfg)))
                  then SwapCandidateSets cfg else ok cfg) = Some (Inr c1)"
    and ring: "ring_do free_backbone (\<lambda>c. Suc_n (fst c)) (\<lambda>c. FirstNode (fst c)) c1 (FirstNode (fst c1)) = Some (Inr cfg1)"
    by (auto simp: backbone_cleanup_def Let_def bind_res_Inr)
  have "g (fst cfg1) = g (fst c1)"
    by (rule ring_do_frame[OF ring, where G = "\<lambda>c. g (fst c)"])
       (auto simp: free_backbone_def upd_def out_of_reachD[OF O])
  moreover from a have "g (fst c1) = g (fst cfg)"
    using SwapCandidateSets_frame[OF O, of cfg c1] by (auto split: if_splits)
  ultimately show ?thesis by simp
qed

lemma commit_tour_frame:
  assumes O: "out_of_reach g" and r: "commit_tour s = Some (Inr s')"
  shows "g s' = g s"
proof -
  from r obtain s1 where a: "(if Norm s = 0 then ring_do suc_to_best BestSuc FirstNode s (FirstNode s) else ok s) = Some (Inr s1)"
    and ring: "ring_do commit_link BestSuc FirstNode s1 (FirstNode s1) = Some (Inr s')"
    by (auto simp: commit_tour_def bind_res_Inr)
  have "g s' = g s1"
    by (rule ring_do_frame[OF ring]) (auto simp: commit_link_def out_of_reachD[OF O] split: if_splits)
  moreover have "g s1 = g s"
  proof (cases "Norm s = 0")
    case True
    with a have ring1: "ring_do suc_to_best BestSuc FirstNode s (FirstNode s) = Some (Inr s1)" by simp
    show ?thesis
      by (rule ring_do_frame[OF ring1]) (auto simp: suc_to_best_def out_of_reachD[OF O])
  next
    case False
    with a show ?thesis by simp
  qed
  ultimately show ?thesis by simp
qed

lemma FindTour_frame:
  assumes P: "preserves e g" and O: "out_of_reach g"
    and r: "FindTour e cfg = Some (Inr (cost, cfg'))"
  shows "g (fst cfg') = g (fst cfg)"
proof -
  from r obtain E c1 c2 c3 where a: "FindTour_entry e cfg = Some (Inr (E, c1))"
    and b: "trial_loop e E (upd (\<lambda>s. s\<lparr>Trial := 1\<rparr>) c1) = Some (Inr c2)"
    and c: "backbone_cleanup c2 = Some (Inr c3)"
    and d: "FindTour_exit e c3 = Some (Inr (cost, cfg'))"
    by (auto simp: FindTour_def bind_res_Inr)
  from d obtain sc where ct: "commit_tour (fst c3) = Some (Inr sc)"
    and res: "cfg' = (proc e ResetCandidateSet (if Trial sc > MaxTrials sc then sc\<lparr>Trial := MaxTrials sc\<rparr> else sc),
                   snd c3 @ [ResetCandidateSet])"
    by (auto simp: FindTour_exit_def bind_res_Inr call_defs Let_def)
  from res have "g (fst cfg') = g sc"
    by (simp add: preservesD[OF P] out_of_reachD[OF O])
  with commit_tour_frame[OF O ct] backbone_cleanup_frame[OF O c] trial_loop_frame[OF P O b]
    FindTour_entry_frame[OF P O a]
  show ?thesis by (simp add: upd_def out_of_reachD[OF O])
qed


lemma merge_individuals_frame:
  assumes P: "preserves e g"
    and r: "merge_individuals e i Cost cfg = Some (Inr (Cost', cfg1))"
  shows "g (fst cfg1) = g (fst cfg)"
proof -
  define Q where "Q = (\<lambda>e' (i :: int) (Cost :: GainType) (c :: 'a config) (y :: error + GainType \<times> 'a config).
     e' = e \<longrightarrow> (\<forall>r. y = Inr r \<longrightarrow> g (fst (snd r)) = g (fst c)))"
  have "Q e i Cost cfg (Inr (Cost', cfg1))"
  proof (rule merge_individuals.raw_induct[where P = Q, OF _ r])
    fix mi e' i Cost c y
    assume IH: "\<And>e' i Cost c y. mi e' i Cost c = Some y \<Longrightarrow> Q e' i Cost c y"
      and unf: "(if i < PopulationSize (fst c) then
        (let OldCost = Cost;
             Cost' = fst (call_func e' (MergeTourWithIndividual i) c);
             cfg1 = snd (call_func e' (MergeTourWithIndividual i) c);
             cfg2 = (if TraceLevel (fst cfg1) \<ge> 1 \<and> Cost' < OldCost then print_merged e' cfg1 else cfg1)
         in mi e' (i + 1) Cost' cfg2)
      else Some (Inr (Cost, c))) = Some y"
    show "Q e' i Cost c y"
      unfolding Q_def
    proof (intro impI allI)
      fix r assume eqs: "e' = e" and y: "y = Inr r"
      show "g (fst (snd r)) = g (fst c)"
      proof (cases "i < PopulationSize (fst c)")
        case False
        with unf y show ?thesis by auto
      next
        case True
        let ?C = "fst (call_func e (MergeTourWithIndividual i) c)"
        let ?c1 = "snd (call_func e (MergeTourWithIndividual i) c)"
        let ?c2 = "if TraceLevel (fst ?c1) \<ge> 1 \<and> ?C < Cost then print_merged e ?c1 else ?c1"
        from True unf[unfolded eqs] y have "mi e (i + 1) ?C ?c2 = Some (Inr r)"
          by (simp add: Let_def)
        from IH[OF this] have "g (fst (snd r)) = g (fst ?c2)" unfolding Q_def by blast
        also have "\<dots> = g (fst c)"
          by (simp add: print_merged_def call_defs Let_def preservesD[OF P])
        finally show ?thesis .
      qed
    qed
  qed
  then show ?thesis unfolding Q_def by (cases cfg1) simp
qed

lemma select_Parent2_frame:
  assumes P: "preserves e g"
    and r: "select_Parent2 e p cfg = Some (Inr (p2, cfg1))"
  shows "g (fst cfg1) = g (fst cfg)"
proof -
  define Q where "Q = (\<lambda>e' (p :: int) (c :: 'a config) (y :: error + int \<times> 'a config).
     e' = e \<longrightarrow> (\<forall>r. y = Inr r \<longrightarrow> g (fst (snd r)) = g (fst c)))"
  have "Q e p cfg (Inr (p2, cfg1))"
  proof (rule select_Parent2.raw_induct[where P = Q, OF _ r])
    fix sp e' p c y
    assume IH: "\<And>e' p c y. sp e' p c = Some y \<Longrightarrow> Q e' p c y"
      and unf: "(let Parent2 = fst (call_func e' (LinearSelection (PopulationSize (fst c)) 1.25) c);
          cfg1 = snd (call_func e' (LinearSelection (PopulationSize (fst c)) 1.25) c)
      in if Parent2 = p then sp e' p cfg1
         else Some (Inr (Parent2, cfg1))) = Some y"
    show "Q e' p c y"
      unfolding Q_def
    proof (intro impI allI)
      fix r assume eqs: "e' = e" and y: "y = Inr r"
      let ?c1 = "snd (call_func e (LinearSelection (PopulationSize (fst c)) 1.25) c)"
      have g1: "g (fst ?c1) = g (fst c)" by (simp add: call_defs preservesD[OF P])
      show "g (fst (snd r)) = g (fst c)"
      proof (cases "fst (call_func e (LinearSelection (PopulationSize (fst c)) 1.25) c) = p")
        case False
        with unf[unfolded eqs] y have "snd r = ?c1" by (auto simp: Let_def)
        with g1 show ?thesis by simp
      next
        case True
        with unf[unfolded eqs] y have "sp e p ?c1 = Some (Inr r)" by (simp add: Let_def)
        from IH[OF this] have "g (fst (snd r)) = g (fst ?c1)" unfolding Q_def by blast
        with g1 show ?thesis by simp
      qed
    qed
  qed
  then show ?thesis unfolding Q_def by (cases cfg1) simp
qed

lemma genetic_stage_frame:
  assumes P: "preserves e g"
    and r: "genetic_stage e Cost cfg = Some (Inr (Cost', cfg1))"
  shows "g (fst cfg1) = g (fst cfg)"
proof (cases "MaxPopulationSize (fst cfg) > 1")
  case True
  with r obtain C1 c1 where a: "merge_individuals e 0 Cost cfg = Some (Inr (C1, c1))"
    and b: "cfg1 = update_population e C1 c1"
    by (auto simp: genetic_stage_def bind_res_Inr)
  have "g (fst (update_population e C1 c1)) = g (fst c1)"
    by (simp add: update_population_def call_defs Let_def preservesD[OF P])
  with merge_individuals_frame[OF P a] b show ?thesis by simp
next
  case False
  with r show ?thesis
    by (auto simp: genetic_stage_def call_defs preservesD[OF P] split: if_splits)
qed

lemma update_BestCost_frame:
  assumes P: "preserves e g" and O: "out_of_reach g"
  shows "g (fst (update_BestCost e Cost cfg)) = g (fst cfg)"
  by (simp add: update_BestCost_def record_best_def call_defs Let_def preservesD[OF P] out_of_reachD[OF O])

lemma report_run_frame:
  assumes P: "preserves e g"
  shows "g (fst (report_run e LastTime Cost cfg)) = g (fst cfg)"
  by (simp add: report_run_def call_defs Let_def preservesD[OF P])

lemma crossover_stage_frame:
  assumes P: "preserves e g" and O: "out_of_reach g"
    and r: "crossover_stage e cfg = Some (Inr cfg1)"
  shows "g (fst cfg1) = g (fst cfg)"
proof (cases "PopulationSize (fst cfg) \<ge> 2 \<and>
         (PopulationSize (fst cfg) = MaxPopulationSize (fst cfg) \<or> Run (fst cfg) \<ge> 2 * MaxPopulationSize (fst cfg))
         \<and> Run (fst cfg) < Runs (fst cfg)")
  case False
  with r show ?thesis by (auto simp: crossover_stage_def Let_def)
next
  case True
  let ?p1 = "fst (call_func e (LinearSelection (PopulationSize (fst cfg)) 1.25) cfg)"
  let ?c1 = "snd (call_func e (LinearSelection (PopulationSize (fst cfg)) 1.25) cfg)"
  from True r obtain p2 c2 where a: "select_Parent2 e ?p1 ?c1 = Some (Inr (p2, c2))"
    and ring: "ring_do (crossover_link e) (\<lambda>c. InitialSuc (fst c)) (\<lambda>c. FirstNode (fst c))
          (call_proc e (ApplyCrossover ?p1 p2) c2) (FirstNode (fst (call_proc e (ApplyCrossover ?p1 p2) c2)))
        = Some (Inr cfg1)"
    by (auto simp: crossover_stage_def Let_def bind_res_Inr)
  have "g (fst cfg1) = g (fst (call_proc e (ApplyCrossover ?p1 p2) c2))"
    by (rule ring_do_frame[OF ring, where G = "\<lambda>c. g (fst c)"])
       (auto simp: crossover_link_def call_defs Let_def preservesD[OF P] out_of_reachD[OF O] split: if_splits)
  with select_Parent2_frame[OF P a] show ?thesis
    by (simp add: call_defs preservesD[OF P])
qed

lemma suc_to_input_ring:
  assumes run: "ring_do suc_to_input InputSuc FirstNode s (FirstNode s) = Some (Inr s')"
  shows "Suc_n s' = Suc_n s \<and> Optimum s' = Optimum s
       \<and> (\<forall>m. InputSuc s' ((Suc_n s ^^ m) (FirstNode s)) = Suc_n s ((Suc_n s ^^ m) (FirstNode s)))"
proof -
  let ?f = "Suc_n s" and ?F = "FirstNode s"
  let ?I = "\<lambda>\<sigma> t. \<exists>n. t = (?f ^^ n) ?F \<and> Suc_n \<sigma> = ?f \<and> FirstNode \<sigma> = ?F \<and> Optimum \<sigma> = Optimum s
              \<and> (\<forall>i < n. InputSuc \<sigma> ((?f ^^ i) ?F) = ?f ((?f ^^ i) ?F))"
  let ?Q = "\<lambda>\<sigma>. \<exists>n. (?f ^^ Suc n) ?F = ?F \<and> Suc_n \<sigma> = ?f \<and> Optimum \<sigma> = Optimum s
              \<and> (\<forall>i \<le> n. InputSuc \<sigma> ((?f ^^ i) ?F) = ?f ((?f ^^ i) ?F))"
  have "?Q s'"
  proof (rule ring_do_rule[OF run, where I = ?I and Q = ?Q])
    show "?I s ?F" by (rule exI[of _ 0]) simp
  next
    fix \<sigma> t s1
    assume inv: "?I \<sigma> t" and body: "suc_to_input \<sigma> t = Inr s1" and cont: "InputSuc s1 t \<noteq> FirstNode s1"
    from inv obtain n where t: "t = (?f ^^ n) ?F" and f: "Suc_n \<sigma> = ?f" "FirstNode \<sigma> = ?F" "Optimum \<sigma> = Optimum s"
      and a: "\<forall>i < n. InputSuc \<sigma> ((?f ^^ i) ?F) = ?f ((?f ^^ i) ?F)" by blast
    from body have s1: "s1 = \<sigma>\<lparr>InputSuc := (InputSuc \<sigma>)(t := Suc_n \<sigma> t)\<rparr>"
      by (simp add: suc_to_input_def)
    have b: "\<forall>i < Suc n. InputSuc s1 ((?f ^^ i) ?F) = ?f ((?f ^^ i) ?F)"
      using a f t by (auto simp: s1 less_Suc_eq)
    have nx: "InputSuc s1 t = (?f ^^ Suc n) ?F" by (simp add: s1 f t)
    have f1: "Suc_n s1 = ?f" "FirstNode s1 = ?F" "Optimum s1 = Optimum s" by (simp_all add: s1 f)
    from b f1 nx show "?I s1 (InputSuc s1 t)"
      by (intro exI[of _ "Suc n"]) simp
  next
    fix \<sigma> t s1
    assume inv: "?I \<sigma> t" and body: "suc_to_input \<sigma> t = Inr s1" and stop: "InputSuc s1 t = FirstNode s1"
    from inv obtain n where t: "t = (?f ^^ n) ?F" and f: "Suc_n \<sigma> = ?f" "FirstNode \<sigma> = ?F" "Optimum \<sigma> = Optimum s"
      and a: "\<forall>i < n. InputSuc \<sigma> ((?f ^^ i) ?F) = ?f ((?f ^^ i) ?F)" by blast
    from body have s1: "s1 = \<sigma>\<lparr>InputSuc := (InputSuc \<sigma>)(t := Suc_n \<sigma> t)\<rparr>"
      by (simp add: suc_to_input_def)
    have b: "\<forall>i \<le> n. InputSuc s1 ((?f ^^ i) ?F) = ?f ((?f ^^ i) ?F)"
      using a f t by (auto simp: s1 le_less)
    have f1: "Suc_n s1 = ?f" "FirstNode s1 = ?F" "Optimum s1 = Optimum s" by (simp_all add: s1 f)
    from stop have "(?f ^^ Suc n) ?F = ?F" by (simp add: s1 f t)
    with b f1 show "?Q s1"
      by (intro exI[of _ n]) simp
  qed
  then obtain n where cyc: "(?f ^^ Suc n) ?F = ?F" and f: "Suc_n s' = ?f" "Optimum s' = Optimum s"
    and a: "\<forall>i \<le> n. InputSuc s' ((?f ^^ i) ?F) = ?f ((?f ^^ i) ?F)" by blast
  have "InputSuc s' ((?f ^^ m) ?F) = ?f ((?f ^^ m) ?F)" for m
  proof -
    have "m mod Suc n \<le> n" by (simp add: less_Suc_eq_le[symmetric] del: mod_Suc_eq)
    with a have "InputSuc s' ((?f ^^ (m mod Suc n)) ?F) = ?f ((?f ^^ (m mod Suc n)) ?F)" by blast
    then show ?thesis by (simp only: funpow_cycle_mod[OF cyc, symmetric])
  qed
  with f show ?thesis by blast
qed

section \<open>The optimum across the runs\<close>

lemma out_of_reach_fields:
  "out_of_reach Optimum" "out_of_reach Seed"
  by (simp_all add: out_of_reach_def)

lemma update_Optimum_cases:
  assumes r: "update_Optimum Cost c = Some (Inr c')"
  shows "Optimum (fst c') = (if Cost < Optimum (fst c) then Cost else Optimum (fst c))
       \<and> (\<not> Cost < Optimum (fst c) \<longrightarrow> c' = c)
       \<and> (Cost < Optimum (fst c) \<and> InputSuc (fst c) (FirstNode (fst c)) \<noteq> 0 \<longrightarrow>
            Suc_n (fst c') = Suc_n (fst c)
          \<and> (\<forall>m. InputSuc (fst c') ((Suc_n (fst c) ^^ m) (FirstNode (fst c)))
                   = Suc_n (fst c) ((Suc_n (fst c) ^^ m) (FirstNode (fst c)))))
       \<and> (Cost < Optimum (fst c) \<and> InputSuc (fst c) (FirstNode (fst c)) = 0 \<longrightarrow>
            InputSuc (fst c') = InputSuc (fst c))"
proof (cases "Cost < Optimum (fst c)")
  case False
  with r show ?thesis by (simp add: update_Optimum_def Let_def)
next
  case True
  show ?thesis
  proof (cases "InputSuc (fst c) (FirstNode (fst c)) = 0")
    case True
    with r \<open>Cost < Optimum (fst c)\<close> show ?thesis
      by (auto simp: update_Optimum_def Let_def printff_def bind_res_Inr split: if_splits)
  next
    case False
    with r True obtain s1 where
      ring: "ring_do suc_to_input InputSuc FirstNode (fst c) (FirstNode (fst c)) = Some (Inr s1)"
      and c': "c' = printff NewOptimum (s1\<lparr>Optimum := Cost\<rparr>, snd c)"
      by (auto simp: update_Optimum_def Let_def bind_res_Inr split: if_splits)
    from suc_to_input_ring[OF ring] True False show ?thesis
      unfolding c' by (simp add: printff_def)
  qed
qed

lemma update_Optimum_frame:
  assumes O: "out_of_reach g" and I: "\<And>s x. g (s\<lparr>Optimum := x\<rparr>) = g s"
    and r: "update_Optimum Cost c = Some (Inr c')"
  shows "g (fst c') = g (fst c)"
proof (cases "Cost < Optimum (fst c)")
  case False
  with r show ?thesis by (simp add: update_Optimum_def Let_def)
next
  case True
  with r obtain s1 where
    a: "(if FirstNode (fst c) = 0 then crash NullDeref
         else if InputSuc (fst c) (FirstNode (fst c)) \<noteq> 0
         then ring_do suc_to_input InputSuc FirstNode (fst c) (FirstNode (fst c))
         else ok (fst c)) = Some (Inr s1)"
    and c': "c' = printff NewOptimum (s1\<lparr>Optimum := Cost\<rparr>, snd c)"
    by (auto simp: update_Optimum_def Let_def bind_res_Inr)
  have "g s1 = g (fst c)"
  proof (cases "FirstNode (fst c) \<noteq> 0 \<and> InputSuc (fst c) (FirstNode (fst c)) \<noteq> 0")
    case True
    with a have ring: "ring_do suc_to_input InputSuc FirstNode (fst c) (FirstNode (fst c)) = Some (Inr s1)"
      by simp
    show ?thesis
      by (rule ring_do_frame[OF ring]) (auto simp: suc_to_input_def out_of_reachD[OF O])
  next
    case False
    with a show ?thesis by (auto split: if_splits)
  qed
  then show ?thesis unfolding c' by (simp add: printff_def I)
qed

lemma run_search_frame:
  assumes P: "preserves e g" and O: "out_of_reach g" and I: "\<And>s x. g (s\<lparr>Optimum := x\<rparr>) = g s"
    and r: "run_search e cfg = Some (Inr (Cost, Old, cfg1))"
  shows "g (fst cfg1) = g (fst cfg)"
proof -
  let ?c1 = "snd (call_GetTime e cfg)"
  from r obtain C0 c2 c3 c5 where
    a: "FindTour e (fst ?c1, snd ?c1 @ [Enter_FindTour]) = Some (Inr (C0, c2))"
    and b: "genetic_stage e C0 c2 = Some (Inr (Cost, c3))"
    and c: "update_Optimum Cost (update_BestCost e Cost c3) = Some (Inr c5)"
    and d: "cfg1 = report_run e (fst (call_GetTime e cfg)) Cost c5"
    by (auto simp: run_search_def Let_def bind_res_Inr)
  from FindTour_frame[OF P O a] have "g (fst c2) = g (fst cfg)"
    by (simp add: call_defs preservesD[OF P])
  with genetic_stage_frame[OF P b] update_Optimum_frame[OF O I c] show ?thesis
    unfolding d by (simp add: report_run_frame[OF P] update_BestCost_frame[OF P O])
qed

lemma run_search_Optimum:
  assumes P: "preserves e Optimum"
    and r: "run_search e cfg = Some (Inr (Cost, Old, cfg1))"
  shows "Old = Optimum (fst cfg)
       \<and> Optimum (fst cfg1) = (if Cost < Optimum (fst cfg) then Cost else Optimum (fst cfg))"
proof -
  note O = out_of_reach_fields(1)
  let ?c1 = "snd (call_GetTime e cfg)"
  from r obtain C0 c2 c3 c5 where
    a: "FindTour e (fst ?c1, snd ?c1 @ [Enter_FindTour]) = Some (Inr (C0, c2))"
    and b: "genetic_stage e C0 c2 = Some (Inr (Cost, c3))"
    and c: "update_Optimum Cost (update_BestCost e Cost c3) = Some (Inr c5)"
    and old: "Old = Optimum (fst (update_BestCost e Cost c3))"
    and d: "cfg1 = report_run e (fst (call_GetTime e cfg)) Cost c5"
    by (auto simp: run_search_def Let_def bind_res_Inr)
  from FindTour_frame[OF P O a] have "Optimum (fst c2) = Optimum (fst cfg)"
    by (simp add: call_defs preservesD[OF P])
  with genetic_stage_frame[OF P b] have e: "Optimum (fst (update_BestCost e Cost c3)) = Optimum (fst cfg)"
    by (simp add: update_BestCost_frame[OF P O])
  from update_Optimum_cases[OF c] e old show ?thesis
    unfolding d by (simp add: report_run_frame[OF P])
qed

lemma run_finish_Optimum:
  assumes P: "preserves e Optimum"
    and r: "run_finish e Cost Old cfg = Some (Inr (brk, cfg1))"
  shows "Optimum (fst cfg1) = Optimum (fst cfg)"
proof (cases "StopAtOptimum (fst cfg) \<noteq> 0 \<and> Cost = Old \<and> MaxPopulationSize (fst cfg) \<ge> 1")
  case True
  with r show ?thesis by (auto simp: run_finish_def upd_def)
next
  case False
  with r obtain c1 where a: "crossover_stage e cfg = Some (Inr c1)"
    and b: "cfg1 = call_proc e (SRandom (Seed (fst c1) + 1)) (upd (\<lambda>s. s\<lparr>Seed := Seed s + 1\<rparr>) c1)"
    by (auto simp: run_finish_def bind_res_Inr Let_def upd_def)
  from crossover_stage_frame[OF P out_of_reach_fields(1) a] show ?thesis
    unfolding b by (simp add: call_defs preservesD[OF P])
qed

lemma suc_to_input_total:
  assumes "is_tour (Suc_n s) (FirstNode s)"
  shows "ring_do suc_to_input InputSuc FirstNode s (FirstNode s) =
           Some (Inr (s\<lparr>InputSuc := \<lambda>t. if on_tour (Suc_n s) (FirstNode s) t then Suc_n s t else InputSuc s t\<rparr>))"
proof -
  let ?g = "Suc_n s" and ?F = "FirstNode s"
  from assms obtain n where cyc: "(?g ^^ Suc n) ?F = ?F" and nz: "\<And>i. i \<le> n \<Longrightarrow> (?g ^^ i) ?F \<noteq> 0"
    by (auto simp: is_tour_def)
  define Inv where "Inv = (\<lambda>i \<sigma>. \<sigma> = s\<lparr>InputSuc := fold (\<lambda>i p. p((?g ^^ i) ?F := ?g ((?g ^^ i) ?F))) [0..<i] (InputSuc s)\<rparr>)"
  have "\<exists>s' j. ring_do suc_to_input InputSuc FirstNode s ((?g ^^ 0) ?F) = Some (Inr s') \<and> j \<le> n
            \<and> Inv (Suc j) s' \<and> (?g ^^ Suc j) ?F = ?F"
  proof (rule ring_do_total[where Inv = Inv, OF cyc nz])
    show "Inv 0 s" by (simp add: Inv_def)
    show "(0::nat) \<le> n" by simp
    fix \<sigma> i assume "i \<le> n" "Inv i \<sigma>"
    then show "\<exists>\<sigma>'. suc_to_input \<sigma> ((?g ^^ i) ?F) = Inr \<sigma>' \<and> Inv (Suc i) \<sigma>'
                    \<and> InputSuc \<sigma>' ((?g ^^ i) ?F) = (?g ^^ Suc i) ?F \<and> FirstNode \<sigma>' = ?F"
      by (simp add: Inv_def suc_to_input_def)
  qed
  then obtain s' j where r: "ring_do suc_to_input InputSuc FirstNode s ?F = Some (Inr s')"
    and i: "Inv (Suc j) s'" and c: "(?g ^^ Suc j) ?F = ?F" by auto
  from i have "s' = s\<lparr>InputSuc := \<lambda>t. if \<exists>i<Suc j. (?g ^^ i) ?F = t then ?g t else InputSuc s t\<rparr>"
    unfolding Inv_def fold_upd_fun[of "\<lambda>i. (?g ^^ i) ?F" ?g] .
  then have "s' = s\<lparr>InputSuc := \<lambda>t. if on_tour ?g ?F t then ?g t else InputSuc s t\<rparr>"
    by (simp only: on_tour_bounded[OF c])
  with r show ?thesis by simp
qed

lemma update_Optimum_total:
  "\<not> Cost < Optimum (fst c) \<Longrightarrow> update_Optimum Cost c = Some (Inr c)"
  "Cost < Optimum (fst c) \<Longrightarrow> FirstNode (fst c) = 0 \<Longrightarrow> update_Optimum Cost c = Some (Inl NullDeref)"
  "Cost < Optimum (fst c) \<Longrightarrow> FirstNode (fst c) \<noteq> 0 \<Longrightarrow> InputSuc (fst c) (FirstNode (fst c)) = 0 \<Longrightarrow>
     update_Optimum Cost c = Some (Inr ((fst c)\<lparr>Optimum := Cost\<rparr>, snd c @ [Printff NewOptimum]))"
  "Cost < Optimum (fst c) \<Longrightarrow> InputSuc (fst c) (FirstNode (fst c)) \<noteq> 0 \<Longrightarrow>
   is_tour (Suc_n (fst c)) (FirstNode (fst c)) \<Longrightarrow>
     update_Optimum Cost c =
       Some (Inr ((fst c)\<lparr>InputSuc := \<lambda>t. if on_tour (Suc_n (fst c)) (FirstNode (fst c)) t
                                          then Suc_n (fst c) t else InputSuc (fst c) t,
                          Optimum := Cost\<rparr>, snd c @ [Printff NewOptimum]))"
proof -
  show "update_Optimum Cost c = Some (Inr c)" if "\<not> Cost < Optimum (fst c)"
    using that by (simp add: update_Optimum_def Let_def ok_def)
  show "update_Optimum Cost c = Some (Inl NullDeref)" if "Cost < Optimum (fst c)" "FirstNode (fst c) = 0"
    using that by (simp add: update_Optimum_def Let_def crash_def)
  show "update_Optimum Cost c = Some (Inr ((fst c)\<lparr>Optimum := Cost\<rparr>, snd c @ [Printff NewOptimum]))"
    if "Cost < Optimum (fst c)" "FirstNode (fst c) \<noteq> 0" "InputSuc (fst c) (FirstNode (fst c)) = 0"
    using that by (simp add: update_Optimum_def Let_def ok_def printff_def)
  show "update_Optimum Cost c =
       Some (Inr ((fst c)\<lparr>InputSuc := \<lambda>t. if on_tour (Suc_n (fst c)) (FirstNode (fst c)) t
                                          then Suc_n (fst c) t else InputSuc (fst c) t,
                          Optimum := Cost\<rparr>, snd c @ [Printff NewOptimum]))"
    if a: "Cost < Optimum (fst c)" "InputSuc (fst c) (FirstNode (fst c)) \<noteq> 0"
      and t: "is_tour (Suc_n (fst c)) (FirstNode (fst c))"
  proof -
    from t have "FirstNode (fst c) \<noteq> 0" by (auto simp: is_tour_def dest: spec[of _ 0])
    with a show ?thesis
      by (simp add: update_Optimum_def Let_def ok_def printff_def suc_to_input_total[OF t])
  qed
qed

text \<open>
  Claim C10. If the procedures called in the runs leave \<^verbatim>\<open>Optimum\<close> alone, it
  never rises over the run loop: a run reads \<^verbatim>\<open>OldOptimum\<close> as the optimum it
  started with, lowers \<^verbatim>\<open>Optimum\<close> to its cost exactly when the cost is
  strictly smaller, and the rest of the run keeps it. The step that lowers
  it (lines 111 to 118) always ends: when the cost is not smaller it changes
  nothing; when \<^verbatim>\<open>FirstNode->InputSuc\<close> is null it assigns \<^verbatim>\<open>Optimum\<close> only; and
  when \<^verbatim>\<open>FirstNode->InputSuc\<close> is set and the \<^verbatim>\<open>Suc\<close> links form a tour through
  \<^verbatim>\<open>FirstNode\<close>, it returns with \<^verbatim>\<open>InputSuc\<close> equal to \<^verbatim>\<open>Suc\<close> at every node of that
  tour, unchanged elsewhere, and \<^verbatim>\<open>Optimum\<close> equal to the cost.
\<close>

theorem Optimum_never_rises:
  "(preserves e Optimum \<and> run_loop e cfg = Some (Inr cfg') \<longrightarrow> Optimum (fst cfg') \<le> Optimum (fst cfg))
   \<and> (preserves e Optimum \<and> run_search e cfg = Some (Inr (Cost1, OldOptimum, cfg1)) \<longrightarrow>
         OldOptimum = Optimum (fst cfg)
       \<and> Optimum (fst cfg1) = (if Cost1 < Optimum (fst cfg) then Cost1 else Optimum (fst cfg)))
   \<and> (preserves e Optimum \<and> run_finish e Cost1 OldOptimum cfg1 = Some (Inr (brk, cfg2)) \<longrightarrow>
         Optimum (fst cfg2) = Optimum (fst cfg1))
   \<and> (\<not> Cost < Optimum (fst c) \<longrightarrow> update_Optimum Cost c = Some (Inr c))
   \<and> (Cost < Optimum (fst c) \<and> FirstNode (fst c) \<noteq> 0 \<and> InputSuc (fst c) (FirstNode (fst c)) = 0 \<longrightarrow>
         update_Optimum Cost c = Some (Inr ((fst c)\<lparr>Optimum := Cost\<rparr>, snd c @ [Printff NewOptimum])))
   \<and> (Cost < Optimum (fst c) \<and> InputSuc (fst c) (FirstNode (fst c)) \<noteq> 0
       \<and> is_tour (Suc_n (fst c)) (FirstNode (fst c)) \<longrightarrow>
         update_Optimum Cost c =
           Some (Inr ((fst c)\<lparr>InputSuc := \<lambda>t. if on_tour (Suc_n (fst c)) (FirstNode (fst c)) t
                                              then Suc_n (fst c) t else InputSuc (fst c) t,
                              Optimum := Cost\<rparr>, snd c @ [Printff NewOptimum])))"
proof -
  have body: "Optimum (fst c1) \<le> Optimum (fst c0)"
    if P: "preserves e Optimum" and b: "run_body e c0 = Some (Inr (brk, c1))" for c0 brk c1
  proof -
    from b obtain Cost Old c2 where s: "run_search e c0 = Some (Inr (Cost, Old, c2))"
      and f: "run_finish e Cost Old c2 = Some (Inr (brk, c1))"
      by (auto simp: run_body_def bind_res_Inr)
    from run_search_Optimum[OF P s] run_finish_Optimum[OF P f] show ?thesis
      by (auto split: if_splits)
  qed
  have loop: "Optimum (fst cfg') \<le> Optimum (fst cfg)"
    if P: "preserves e Optimum" and r: "run_loop e cfg = Some (Inr cfg')"
    by (rule run_loop_rule[OF r, where R = "\<lambda>c c'. Optimum (fst c') \<le> Optimum (fst c)"])
       (auto simp: upd_def body[OF P])
  show ?thesis
    apply (intro conjI)
         apply (simp add: loop)
        apply (intro impI, elim conjE, erule (1) run_search_Optimum)
       apply (intro impI, elim conjE, erule (1) run_finish_Optimum)
      apply (simp add: update_Optimum_total(1))
     apply (simp add: update_Optimum_total(3))
    apply (simp add: update_Optimum_total(4))
    done
qed

text \<open>
  On the small instance with \<^verbatim>\<open>Optimum = 100\<close> and the \<^verbatim>\<open>InputSuc\<close> links set to
  the tour 1, 3, 2: two runs of costs 5 and 8 leave the optimum 5, and the
  first of them makes the \<^verbatim>\<open>InputSuc\<close> links the working tour 1, 2, 3.
\<close>

theorem Optimum_never_rises_witness:
  "\<exists>cfg'. run_loop stub_env (ex_state\<lparr>Optimum := 100, StopAtOptimum := 0, BestCost := 1000000,
                                     InputSuc := rev3, world := ([7, 6, 5, 9, 8, 8, 8], 0)\<rparr>, []) = Some (Inr cfg')
      \<and> Optimum (fst cfg') \<le> 100 \<and> Optimum (fst cfg') = 5
      \<and> InputSuc (fst cfg') 1 = 2 \<and> InputSuc (fst cfg') 2 = 3 \<and> InputSuc (fst cfg') 3 = 1
      \<and> filter is_run_event (snd cfg') = [Enter_FindTour, UpdateStatistics 5 0, Enter_FindTour, UpdateStatistics 8 0]
      \<and> (\<exists>s'. update_Optimum 5 (ex_state\<lparr>Optimum := 100, InputSuc := rev3\<rparr>, []) = Some (Inr (s', [Printff NewOptimum]))
            \<and> Optimum s' = 5 \<and> InputSuc s' 1 = 2 \<and> InputSuc s' 2 = 3 \<and> InputSuc s' 3 = 1 \<and> InputSuc s' 4 = 0)
      \<and> update_Optimum 5 (ex_state\<lparr>Optimum := 100\<rparr>, []) = Some (Inr (ex_state\<lparr>Optimum := 5\<rparr>, [Printff NewOptimum]))
      \<and> update_Optimum 5 (ex_state\<lparr>Optimum := 5, InputSuc := rev3\<rparr>, []) = Some (Inr (ex_state\<lparr>Optimum := 5, InputSuc := rev3\<rparr>, []))"
proof -
  let ?c = "(ex_state\<lparr>Optimum := 100, StopAtOptimum := 0, BestCost := 1000000,
                                     InputSuc := rev3, world := ([7, 6, 5, 9, 8, 8, 8], 0)\<rparr>, [])"
  let ?u = "(ex_state\<lparr>Optimum := 100, InputSuc := rev3\<rparr>, [])"
  have "\<exists>cfg'. run_loop stub_env ?c = Some (Inr cfg') \<and> Optimum (fst cfg') = 5
      \<and> InputSuc (fst cfg') 1 = 2 \<and> InputSuc (fst cfg') 2 = 3 \<and> InputSuc (fst cfg') 3 = 1
      \<and> filter is_run_event (snd cfg') = [Enter_FindTour, UpdateStatistics 5 0, Enter_FindTour, UpdateStatistics 8 0]"
    by (simp add: eval_defs main_defs stub_defs rev3_def)
  then obtain cfg' where r: "run_loop stub_env ?c = Some (Inr cfg')" and o: "Optimum (fst cfg') = 5"
    and i: "InputSuc (fst cfg') 1 = 2" "InputSuc (fst cfg') 2 = 3" "InputSuc (fst cfg') 3 = 1"
    and t: "filter is_run_event (snd cfg') = [Enter_FindTour, UpdateStatistics 5 0, Enter_FindTour, UpdateStatistics 8 0]"
    by blast
  note inst = Optimum_never_rises[of stub_env ?c cfg' _ _ _ _ _ 5 ?u]
  from inst[THEN conjunct1] stub_preserves(2) r
  have "Optimum (fst cfg') \<le> Optimum (fst ?c)" by simp
  then have le: "Optimum (fst cfg') \<le> 100" by (simp add: ex_state_def)
  have tour: "is_tour (Suc_n (fst ?u)) (FirstNode (fst ?u))"
    unfolding is_tour_def by (rule exI[of _ 2]) (simp add: stub_defs less_Suc_eq_le[symmetric] less_Suc_eq numeral_3_eq_3)
  have on: "on_tour (Suc_n (fst ?u)) (FirstNode (fst ?u)) 1" "on_tour (Suc_n (fst ?u)) (FirstNode (fst ?u)) 2"
    "on_tour (Suc_n (fst ?u)) (FirstNode (fst ?u)) 3"
    unfolding on_tour_def
    by (rule exI[of _ 0], simp add: stub_defs, rule exI[of _ 1], simp add: stub_defs,
        rule exI[of _ 2], simp add: stub_defs numeral_2_eq_2)
  have off: "\<not> on_tour (Suc_n (fst ?u)) (FirstNode (fst ?u)) 4"
  proof -
    have a: "(ring3 ^^ m) (Suc 0) \<in> {1, 2, 3}" for m by (induction m) (auto simp: ring3_def)
    have b: "4 \<noteq> (ring3 ^^ m) (Suc 0)" for m using a[of m] by auto
    show ?thesis by (simp add: on_tour_def ex_state_def b)
  qed
  have lt: "5 < Optimum (fst ?u)" by (simp add: ex_state_def)
  have st: "InputSuc (fst ?u) (FirstNode (fst ?u)) \<noteq> 0" by (simp add: ex_state_def rev3_def)
  note u = inst[THEN conjunct2, THEN conjunct2, THEN conjunct2, THEN conjunct2, THEN conjunct2,
      THEN mp, OF conjI[OF lt conjI[OF st tour]]]
  have u': "\<exists>s'. update_Optimum 5 ?u = Some (Inr (s', [Printff NewOptimum]))
            \<and> Optimum s' = 5 \<and> InputSuc s' 1 = 2 \<and> InputSuc s' 2 = 3 \<and> InputSuc s' 3 = 1 \<and> InputSuc s' 4 = 0"
    unfolding u using on off by (simp add: stub_defs rev3_def)
  have v: "update_Optimum 5 (ex_state\<lparr>Optimum := 100\<rparr>, []) = Some (Inr (ex_state\<lparr>Optimum := 5\<rparr>, [Printff NewOptimum]))"
    using Optimum_never_rises[of stub_env ?c cfg' _ _ _ _ _ 5 "(ex_state\<lparr>Optimum := 100\<rparr>, [])",
        THEN conjunct2, THEN conjunct2, THEN conjunct2, THEN conjunct2, THEN conjunct1]
    by (simp add: stub_defs)
  have w: "update_Optimum 5 (ex_state\<lparr>Optimum := 5, InputSuc := rev3\<rparr>, []) = Some (Inr (ex_state\<lparr>Optimum := 5, InputSuc := rev3\<rparr>, []))"
    using Optimum_never_rises[of stub_env ?c cfg' _ _ _ _ _ 5 "(ex_state\<lparr>Optimum := 5, InputSuc := rev3\<rparr>, [])",
        THEN conjunct2, THEN conjunct2, THEN conjunct2, THEN conjunct1]
    by (simp add: stub_defs)
  from r le o i t u' v w show ?thesis by blast
qed

end
